theory Spec2Isabelle
  imports Main "HOL-Library.Word"
begin

unbundle bit_operations_syntax

section \<open>Exceptions\<close>

text \<open>
  The C++ sources throw \<^verbatim>\<open>invalid_argument\<close>, \<^verbatim>\<open>length_error\<close>,
  \<^verbatim>\<open>runtime_error\<close> (from \<^verbatim>\<open>std\<close> or from \<^verbatim>\<open>aff3ct::tools\<close>) and
  \<^verbatim>\<open>tools::unimplemented_error\<close>. Every throw site is a branch of the model that returns
  the exception as a value; the string is the fixed part of the message of the throw site.
  \<open>undefined_behaviour\<close> is not an exception: it marks the places where the C++ code
  would read or write outside a buffer or dereference a null pointer.
\<close>

datatype error =
    invalid_argument string
  | length_error string
  | runtime_error string
  | unimplemented_error
  | undefined_behaviour

section \<open>Module/Task.cpp: tasks and sockets\<close>

subsection \<open>Data model\<close>

text \<open>
  \<^verbatim>\<open>Socket\<close> (declared in Socket.hpp) carries a name, the \<^verbatim>\<open>typeid\<close> of its elements,
  a size in bytes and a raw data pointer. A pointer is null, or points into one of the
  task's own \<^verbatim>\<open>out_buffers\<close>, or to memory of the caller.
\<close>

datatype Socket_type = IN | IN_OUT | OUT

datatype elmt_type = T_int8 | T_int16 | T_int32 | T_int64 | T_float | T_double

fun sizeof :: "elmt_type \<Rightarrow> nat" where
  "sizeof T_int8 = 1"
| "sizeof T_int16 = 2"
| "sizeof T_int32 = 4"
| "sizeof T_int64 = 8"
| "sizeof T_float = 4"
| "sizeof T_double = 8"

datatype pointer = nullptr | out_buffer nat | extern nat

record Socket =
  socket_name :: string
  socket_datatype :: elmt_type
  databytes :: nat
  dataptr :: pointer

text \<open>
  The fields of \<^verbatim>\<open>Task\<close> that Task.cpp reads and writes. \<open>n_calls\<close> is a
  \<^verbatim>\<open>uint32_t\<close>; the durations are nanosecond counts. The codelet is a
  \<^verbatim>\<open>std::function<int(void)>\<close>: it acts on the memory behind the sockets and on whatever
  it captured, here a state of type \<open>'w\<close>, and either returns a status or throws.
  A codelet of the model never touches the fields of the task that runs it.
  \<open>out_buffers\<close> keeps the byte size of each owned buffer.
\<close>

record 'w Task =
  task_name :: string
  autoalloc :: bool
  autoexec :: bool
  stats :: bool
  debug :: bool
  debug_limit :: int
  debug_precision :: nat
  codelet :: "'w \<Rightarrow> (error + int) \<times> 'w"
  n_calls :: "32 word"
  duration_total :: int
  duration_min :: int
  duration_max :: int
  socket :: "Socket list"
  socket_type :: "string \<rightharpoonup> Socket_type"
  out_buffers :: "nat list"

subsection \<open>Operations\<close>

text \<open>The constructor (Task.cpp, lines 14-30): the default codelet throws.\<close>

definition Task_ctor :: "string \<Rightarrow> bool \<Rightarrow> bool \<Rightarrow> bool \<Rightarrow> bool \<Rightarrow> 'w Task" where
  "Task_ctor nm aalloc aexec sts dbg =
     \<lparr> task_name = nm, autoalloc = aalloc, autoexec = aexec, stats = sts, debug = dbg,
       debug_limit = - 1, debug_precision = 2,
       codelet = (\<lambda>w. (Inl unimplemented_error, w)),
       n_calls = 0, duration_total = 0, duration_min = 0, duration_max = 0,
       socket = [], socket_type = Map.empty, out_buffers = [] \<rparr>"

text \<open>\<^verbatim>\<open>Task::can_exec\<close> (lines 352-358).\<close>

definition can_exec :: "'w Task \<Rightarrow> bool" where
  "can_exec t = list_all (\<lambda>sck. dataptr sck \<noteq> nullptr) (socket t)"

text \<open>\<^verbatim>\<open>Task::get_socket_type\<close> (lines 415-427).\<close>

definition get_socket_type :: "'w Task \<Rightarrow> Socket \<Rightarrow> error + Socket_type" where
  "get_socket_type t sck =
     (case socket_type t (socket_name sck) of
        Some ty \<Rightarrow> Inr ty
      | None \<Rightarrow> Inl (runtime_error ''The socket does not exist''))"

text \<open>
  \<^verbatim>\<open>Task::create_socket<T>\<close> (lines 251-275). The new socket is appended with a null
  data pointer; the result is the task with the socket pushed back.
\<close>

definition create_socket :: "'w Task \<Rightarrow> elmt_type \<Rightarrow> string \<Rightarrow> nat \<Rightarrow> error + 'w Task" where
  "create_socket t ty nm n_elmts =
     (if nm = [] then
        Inl (runtime_error ''Impossible to create this socket because the name is empty'')
      else if list_ex (\<lambda>sck. socket_name sck = nm) (socket t) then
        Inl (runtime_error
          ''Impossible to create this socket because an other socket has the same name'')
      else
        Inr (t\<lparr> socket := socket t @
               [\<lparr> socket_name = nm, socket_datatype = ty,
                  databytes = n_elmts * sizeof ty, dataptr = nullptr \<rparr>] \<rparr>))"

text \<open>\<^verbatim>\<open>Task::create_socket_in\<close> and \<^verbatim>\<open>create_socket_in_out\<close> (lines 277-291).\<close>

definition create_socket_in :: "'w Task \<Rightarrow> elmt_type \<Rightarrow> string \<Rightarrow> nat \<Rightarrow> error + 'w Task" where
  "create_socket_in t ty nm n_elmts =
     (case create_socket t ty nm n_elmts of
        Inl e \<Rightarrow> Inl e
      | Inr t' \<Rightarrow> Inr (t'\<lparr> socket_type := (socket_type t')(nm \<mapsto> IN) \<rparr>))"

definition create_socket_in_out :: "'w Task \<Rightarrow> elmt_type \<Rightarrow> string \<Rightarrow> nat \<Rightarrow> error + 'w Task" where
  "create_socket_in_out t ty nm n_elmts =
     (case create_socket t ty nm n_elmts of
        Inl e \<Rightarrow> Inl e
      | Inr t' \<Rightarrow> Inr (t'\<lparr> socket_type := (socket_type t')(nm \<mapsto> IN_OUT) \<rparr>))"

text \<open>
  \<^verbatim>\<open>Task::create_socket_out\<close> (lines 293-306): with \<open>autoalloc\<close> the socket just pushed
  back (the last one) gets a fresh owned buffer.
\<close>

definition create_socket_out :: "'w Task \<Rightarrow> elmt_type \<Rightarrow> string \<Rightarrow> nat \<Rightarrow> error + 'w Task" where
  "create_socket_out t ty nm n_elmts =
     (case create_socket t ty nm n_elmts of
        Inl e \<Rightarrow> Inl e
      | Inr t' \<Rightarrow>
          (let t1 = t'\<lparr> socket_type := (socket_type t')(nm \<mapsto> OUT) \<rparr> in
           if autoalloc t1 then
             Inr (t1\<lparr> out_buffers := out_buffers t1 @ [databytes (last (socket t1))],
                      socket := butlast (socket t1) @
                        [(last (socket t1))\<lparr> dataptr := out_buffer (length (out_buffers t1)) \<rparr>] \<rparr>)
           else Inr t1))"

text \<open>\<^verbatim>\<open>Task::create_codelet\<close> (lines 308-311).\<close>

definition create_codelet :: "'w Task \<Rightarrow> ('w \<Rightarrow> (error + int) \<times> 'w) \<Rightarrow> 'w Task" where
  "create_codelet t f = t\<lparr> codelet := f \<rparr>"

text \<open>
  \<^verbatim>\<open>Task::exec\<close> (lines 135-249). The text written to \<^verbatim>\<open>std::cout\<close> in debug mode is
  not part of the model, but the calls of \<^verbatim>\<open>get_socket_type\<close> made while printing are:
  the first loop of the debug branch asks for the type of every socket and throws for a
  socket that has none. \<open>duration\<close> is the time the two readings of the steady clock
  around the codelet measure. The result is what the call returns or throws, the task
  and the codelet's state after the call.
\<close>

definition exec :: "'w Task \<Rightarrow> int \<Rightarrow> 'w \<Rightarrow> (error + int) \<times> 'w Task \<times> 'w" where
  "exec t duration w =
     (if can_exec t then
        (if debug t \<and> list_ex (\<lambda>sck. socket_type t (socket_name sck) = None) (socket t) then
           (Inl (runtime_error ''The socket does not exist''), t, w)
         else
           (case codelet t w of
              (Inl e, w') \<Rightarrow> (Inl e, t, w')
            | (Inr exec_status, w') \<Rightarrow>
                (let t1 = (if stats t then
                             t\<lparr> duration_total := duration_total t + duration,
                                duration_min := (if n_calls t \<noteq> 0
                                                 then min (duration_min t) duration else duration),
                                duration_max := (if n_calls t \<noteq> 0
                                                 then max (duration_max t) duration else duration) \<rparr>
                           else t);
                     t2 = t1\<lparr> n_calls := n_calls t1 + 1 \<rparr>
                 in (Inr exec_status, t2, w'))))
      else
        (Inl (runtime_error
           ''The task cannot be executed because some of the inputs/outputs are not fed''), t, w))"

text \<open>
  A task whose sockets were all made by \<^verbatim>\<open>create_socket_in\<close>,
  \<^verbatim>\<open>create_socket_in_out\<close> or \<^verbatim>\<open>create_socket_out\<close> has a type for each of them.
\<close>

definition sockets_typed :: "'w Task \<Rightarrow> bool" where
  "sockets_typed t = list_all (\<lambda>sck. socket_type t (socket_name sck) \<noteq> None) (socket t)"


section \<open>Module/Decoder/Decoder.hpp: the frame-batch decode contract\<close>

subsection \<open>Data model\<close>

text \<open>
  What every decoder inherits: the number of frames of its module and the constants
  \<open>K\<close>, \<open>N\<close> and \<open>simd_inter_frame_level\<close>.
\<close>

record Decoder_base =
  n_frames :: int
  K :: int
  N :: int
  simd_inter_frame_level :: int

text \<open>
  \<^verbatim>\<open>Decoder_i<B,R>\<close>: the wave counts, one staging buffer of LLRs and one of bits per
  wave, and the concrete decoder behind the virtual functions \<^verbatim>\<open>_load\<close>,
  \<^verbatim>\<open>_hard_decode\<close>, \<^verbatim>\<open>_store\<close>, \<^verbatim>\<open>_store_fast\<close> and \<^verbatim>\<open>_unpack\<close>: its
  state \<open>impl\<close> and the five functions. A virtual function of the model returns
  normally; \<^verbatim>\<open>_store\<close>, \<^verbatim>\<open>_store_fast\<close> and \<^verbatim>\<open>_unpack\<close> are \<^verbatim>\<open>const\<close> and return
  the vector they were given, rewritten. The durations \<^verbatim>\<open>d_load_total\<close>,
  \<^verbatim>\<open>d_decod_total\<close> and \<^verbatim>\<open>d_store_total\<close> are readings of the clock and are left out.
\<close>

record ('b, 'r, 'st) Decoder_i = Decoder_base +
  n_dec_waves :: int
  n_inter_frame_rest :: int
  Y_N :: "'r list list"
  V_N :: "'b list list"
  impl :: 'st
  load_v :: "'r list \<Rightarrow> 'st \<Rightarrow> 'st"
  hard_decode_v :: "'st \<Rightarrow> 'st"
  store_v :: "'st \<Rightarrow> 'b list \<Rightarrow> 'b list"
  store_fast_v :: "'st \<Rightarrow> 'b list \<Rightarrow> 'b list"
  unpack_v :: "'st \<Rightarrow> 'b list \<Rightarrow> 'b list"

subsection \<open>Operations\<close>

text \<open>
  \<^verbatim>\<open>std::copy(src.begin() + i0, src.begin() + i1, dst.begin() + off)\<close>. It is
  undefined where the source range or the destination range leaves its vector.
\<close>

definition std_copy :: "'a list \<Rightarrow> nat \<Rightarrow> nat \<Rightarrow> 'a list \<Rightarrow> nat \<Rightarrow> 'a list option" where
  "std_copy src i0 i1 dst off =
     (if i0 \<le> i1 \<and> i1 \<le> length src \<and> off + (i1 - i0) \<le> length dst then
        Some (take off dst @ take (i1 - i0) (drop i0 src) @ drop (off + (i1 - i0)) dst)
      else None)"

text \<open>
  The private \<^verbatim>\<open>__hard_decode\<close> (lines 248-278) with the inlined guards of \<^verbatim>\<open>load\<close>
  (lines 280-287) and \<^verbatim>\<open>store\<close> (lines 289-296); \<^verbatim>\<open>store_fast\<close> and \<^verbatim>\<open>unpack\<close>
  have no guard. It returns the state of the concrete decoder and the output vector.
\<close>

definition private_hard_decode ::
  "('b, 'r, 'st) Decoder_i \<Rightarrow> 'r list \<Rightarrow> 'b list \<Rightarrow> bool \<Rightarrow> bool \<Rightarrow> bool \<Rightarrow> bool \<Rightarrow>
   error + ('st \<times> 'b list)" where
  "private_hard_decode d Y V load store store_fast unpack =
     (if load \<and> N d * simd_inter_frame_level d > int (length Y) then
        Inl (length_error ''Y_N.size() has to be greater than N * simd_inter_frame_level.'')
      else
        (let st1 = (if load then load_v d Y (impl d) else impl d);
             st2 = hard_decode_v d st1
         in if store then
              (if store_fast then
                 (let V1 = store_fast_v d st2 V
                  in Inr (st2, if unpack then unpack_v d st2 V1 else V1))
               else if K d * simd_inter_frame_level d > int (length V) then
                 Inl (length_error
                   ''V_K.size() has to be greater than K * simd_inter_frame_level.'')
               else Inr (st2, store_v d st2 V))
            else Inr (st2, V)))"

text \<open>The number of frames of wave \<open>w\<close> (lines 130-132).\<close>

definition n_frames_per_wave :: "('b, 'r, 'st) Decoder_i \<Rightarrow> nat \<Rightarrow> int" where
  "n_frames_per_wave d w =
     (if int w = n_dec_waves d - 1 \<and> n_inter_frame_rest d \<noteq> 0
      then n_inter_frame_rest d else simd_inter_frame_level d)"

text \<open>
  One turn of the loop over the waves (lines 129-166) in three steps. First the copy of
  the wave's frames into its staging buffer (lines 134-140), which returns the buffer.
\<close>

definition load_wave :: "('b, 'r, 'st) Decoder_i \<Rightarrow> 'r list \<Rightarrow> bool \<Rightarrow> nat \<Rightarrow> 'r list option" where
  "load_wave d Y load w =
     (if load then
        (let waves_off1 = int w * simd_inter_frame_level d * N d in
         std_copy Y (nat waves_off1) (nat (waves_off1 + n_frames_per_wave d w * N d))
           (Y_N d ! w) 0)
      else Some (Y_N d ! w))"

text \<open>
  Last the copy of the decoded staging buffer \<open>v\<close> of the wave into the output vector
  (lines 146-165), which returns the output vector.
\<close>

definition store_wave ::
  "('b, 'r, 'st) Decoder_i \<Rightarrow> 'b list \<Rightarrow> 'b list \<Rightarrow> bool \<Rightarrow> nat \<Rightarrow> error + 'b list" where
  "store_wave d v V store w =
     (if store then
        (if K d * n_frames d = int (length V) then
           (let waves_off2 = int w * simd_inter_frame_level d * K d in
            case std_copy v 0 (nat (n_frames_per_wave d w * K d)) V (nat waves_off2) of
              None \<Rightarrow> Inl undefined_behaviour
            | Some V' \<Rightarrow> Inr V')
         else if N d * n_frames d = int (length V) then
           (let waves_off3 = int w * simd_inter_frame_level d * N d in
            case std_copy v 0 (nat (n_frames_per_wave d w * N d)) V (nat waves_off3) of
              None \<Rightarrow> Inl undefined_behaviour
            | Some V' \<Rightarrow> Inr V')
         else
           Inl (runtime_error
             ''this should never happen, V_K is not a multiple of K or of N.''))
      else Inr V)"

text \<open>
  The turn itself: load, \<^verbatim>\<open>__hard_decode\<close> on the two staging buffers of the wave
  (line 143), store. An exception ends the call.
\<close>

definition hard_decode_wave ::
  "'r list \<Rightarrow> bool \<Rightarrow> bool \<Rightarrow> bool \<Rightarrow> bool \<Rightarrow> nat \<Rightarrow>
   ('b, 'r, 'st) Decoder_i \<times> 'b list \<Rightarrow> error + (('b, 'r, 'st) Decoder_i \<times> 'b list)" where
  "hard_decode_wave Y load store store_fast unpack w dV =
     (let d = fst dV; V = snd dV in
      if \<not> (w < length (Y_N d) \<and> w < length (V_N d)) then Inl undefined_behaviour
      else
        (case load_wave d Y load w of
           None \<Rightarrow> Inl undefined_behaviour
         | Some y \<Rightarrow>
             (case private_hard_decode d y (V_N d ! w) load store store_fast unpack of
                Inl e \<Rightarrow> Inl e
              | Inr (st, v) \<Rightarrow>
                  (case store_wave d v V store w of
                     Inl e \<Rightarrow> Inl e
                   | Inr V' \<Rightarrow>
                       Inr (d\<lparr> Y_N := (Y_N d)[w := y], impl := st, V_N := (V_N d)[w := v] \<rparr>,
                            V')))))"

text \<open>The loop over the waves: the first exception ends it.\<close>

fun hard_decode_waves ::
  "'r list \<Rightarrow> bool \<Rightarrow> bool \<Rightarrow> bool \<Rightarrow> bool \<Rightarrow> nat list \<Rightarrow>
   ('b, 'r, 'st) Decoder_i \<times> 'b list \<Rightarrow> error + (('b, 'r, 'st) Decoder_i \<times> 'b list)" where
  "hard_decode_waves Y load store store_fast unpack [] dV = Inr dV"
| "hard_decode_waves Y load store store_fast unpack (w # ws) dV =
     (case hard_decode_wave Y load store store_fast unpack w dV of
        Inl e \<Rightarrow> Inl e
      | Inr dV' \<Rightarrow> hard_decode_waves Y load store store_fast unpack ws dV')"

text \<open>\<^verbatim>\<open>Decoder_i::hard_decode\<close> (lines 101-169).\<close>

definition hard_decode ::
  "('b, 'r, 'st) Decoder_i \<Rightarrow> 'r list \<Rightarrow> 'b list \<Rightarrow> bool \<Rightarrow> bool \<Rightarrow> bool \<Rightarrow> bool \<Rightarrow>
   error + (('b, 'r, 'st) Decoder_i \<times> 'b list)" where
  "hard_decode d Y V load store store_fast unpack =
     (if N d * n_frames d \<noteq> int (length Y) then
        Inl (length_error ''Y_N.size() has to be equal to N * n_frames.'')
      else if N d * n_frames d < int (length V) then
        Inl (length_error ''V_K.size() has to be equal or smaller than N * n_frames.'')
      else if n_dec_waves d = 1 \<and> n_inter_frame_rest d = 0 then
        (case private_hard_decode d Y V load store store_fast unpack of
           Inl e \<Rightarrow> Inl e
         | Inr (st, V') \<Rightarrow> Inr (d\<lparr> impl := st \<rparr>, V'))
      else
        hard_decode_waves Y load store store_fast unpack [0..<nat (n_dec_waves d)] (d, V))"

text \<open>
  The state of a decoder whose constructor (lines 64-82) has returned, which
  \<^verbatim>\<open>hard_decode\<close> keeps: the sizes that pass the checks of lines 73-81, the two wave
  counts of lines 67-68, and per wave one staging buffer of
  \<open>simd_inter_frame_level * N\<close> elements and the padding (lines 69-70). Line 67 takes
  the ceiling of a quotient of two \<^verbatim>\<open>float\<close>s; it is the exact ceiling written here
  when \<open>n_frames\<close> and \<open>simd_inter_frame_level\<close> are below \<open>2 ^ 24\<close>, which the
  \<^verbatim>\<open>float\<close>s hold without rounding. \<open>n_frames\<close> is positive for every module.
\<close>

definition decoder_inv :: "('b, 'r, 'st) Decoder_i \<Rightarrow> bool" where
  "decoder_inv d =
     (0 < K d \<and> K d \<le> N d \<and> 0 < simd_inter_frame_level d \<and> 0 < n_frames d \<and>
      n_dec_waves d = (n_frames d + simd_inter_frame_level d - 1) div simd_inter_frame_level d \<and>
      n_inter_frame_rest d = n_frames d mod simd_inter_frame_level d \<and>
      length (Y_N d) = nat (n_dec_waves d) \<and> length (V_N d) = nat (n_dec_waves d) \<and>
      list_all (\<lambda>y. nat (simd_inter_frame_level d * N d) \<le> length y) (Y_N d) \<and>
      list_all (\<lambda>v. nat (simd_inter_frame_level d * N d) \<le> length v) (V_N d))"

text \<open>
  The virtual \<^verbatim>\<open>_store\<close>, \<^verbatim>\<open>_store_fast\<close> and \<^verbatim>\<open>_unpack\<close> write into the vector they
  are given and do not resize it.
\<close>

definition stores_keep_length :: "('b, 'r, 'st) Decoder_i \<Rightarrow> bool" where
  "stores_keep_length d =
     (\<forall>st V. length (store_v d st V) = length V \<and> length (store_fast_v d st V) = length V \<and>
             length (unpack_v d st V) = length V)"


text \<open>
  Two decoders with the same constants, wave counts and virtual functions: what a call
  of \<^verbatim>\<open>hard_decode\<close> never changes.
\<close>

definition same_setup :: "('b, 'r, 'st) Decoder_i \<Rightarrow> ('b, 'r, 'st) Decoder_i \<Rightarrow> bool" where
  "same_setup d d' =
     (n_frames d' = n_frames d \<and> K d' = K d \<and> N d' = N d \<and>
      simd_inter_frame_level d' = simd_inter_frame_level d \<and>
      n_dec_waves d' = n_dec_waves d \<and> n_inter_frame_rest d' = n_inter_frame_rest d \<and>
      load_v d' = load_v d \<and> hard_decode_v d' = hard_decode_v d \<and> store_v d' = store_v d \<and>
      store_fast_v d' = store_fast_v d \<and> unpack_v d' = unpack_v d)"

text \<open>
  Frame \<open>i\<close> of a vector of frames of \<open>sz\<close> elements each.
\<close>

definition frame :: "nat \<Rightarrow> nat \<Rightarrow> 'a list \<Rightarrow> 'a list" where
  "frame sz i xs = take sz (drop (i * sz) xs)"

text \<open>
  The concrete decoder behind the virtual functions treats the frames of a wave one by
  one, as \<open>dec1\<close> treats a single frame: after \<^verbatim>\<open>_load\<close>, \<^verbatim>\<open>_hard_decode\<close> and
  \<^verbatim>\<open>_store\<close> on buffers that hold \<open>simd_inter_frame_level\<close> frames, frame \<open>i\<close> of the
  output is \<open>dec1\<close> of frame \<open>i\<close> of the input, whatever the decoder held before.
\<close>

definition lanes_independent :: "('b, 'r, 'st) Decoder_i \<Rightarrow> ('r list \<Rightarrow> 'b list) \<Rightarrow> bool" where
  "lanes_independent d dec1 =
     (\<forall>st y v i.
        i < nat (simd_inter_frame_level d) \<and>
        nat (simd_inter_frame_level d) * nat (N d) \<le> length y \<and>
        nat (simd_inter_frame_level d) * nat (K d) \<le> length v \<longrightarrow>
        frame (nat (K d)) i (store_v d (hard_decode_v d (load_v d y st)) v) =
          dec1 (frame (nat (N d)) i y))"


section \<open>Module/Decoder/Polar_MK/SC/Decoder_polar_MK_SC_naive.cpp: the multi-kernel SC decoder\<close>

subsection \<open>Data model\<close>

text \<open>
  \<^verbatim>\<open>tools::Polar_code\<close> is consumed through its getters only:
  \<^verbatim>\<open>get_kernel_matrices\<close>, \<^verbatim>\<open>get_stages\<close>, \<^verbatim>\<open>get_codeword_size\<close>,
  \<^verbatim>\<open>is_mono_kernel\<close> and \<^verbatim>\<open>get_biggest_kernel_size\<close>. The record holds what they
  return.
\<close>

record Polar_code =
  kernel_matrices :: "bool list list list"
  stages :: "nat list"
  codeword_size :: int
  is_mono_kernel :: bool
  biggest_kernel_size :: nat

text \<open>
  What \<^verbatim>\<open>Polar_code\<close> promises about these values (the class is not among the
  sources): the code has a kernel, every kernel matrix is square, every stage names one
  of the kernels, the code is mono-kernel exactly when it has one kernel, the codeword
  size is the product of the kernel sizes of the stages and the biggest kernel size is
  the maximum of the kernel sizes.
\<close>

definition Polar_code_inv :: "Polar_code \<Rightarrow> bool" where
  "Polar_code_inv c =
     (kernel_matrices c \<noteq> [] \<and>
      list_all (\<lambda>M. list_all (\<lambda>row. length row = length M) M) (kernel_matrices c) \<and>
      list_all (\<lambda>st. st < length (kernel_matrices c)) (stages c) \<and>
      (is_mono_kernel c \<longleftrightarrow> length (kernel_matrices c) = 1) \<and>
      codeword_size c = int (prod_list (map (\<lambda>st. length (kernel_matrices c ! st)) (stages c))) \<and>
      biggest_kernel_size c = Max (set (map length (kernel_matrices c))))"

text \<open>
  \<^verbatim>\<open>Contents_MK_SC<B,R>\<close>: the LLRs \<open>l\<close>, the partial sums \<open>s\<close>, the stage and the
  frozen flag of a node. Bits are \<^verbatim>\<open>int\<close>s (every bit the decoder writes is 0 or 1);
  the type \<open>'r\<close> of the LLRs is \<^verbatim>\<open>R\<close>.
\<close>

record 'r Contents_MK_SC =
  l :: "'r list"
  s :: "int list"
  stage :: int
  is_frozen_bit :: bool

text \<open>
  Modelled from the spec: the constructor \<^verbatim>\<open>Contents_MK_SC(size, stage)\<close> is declared
  in the header, which is not among the sources. The two vectors have \<open>size\<close> elements,
  value-initialised; leaves get their frozen flag from the mask later and no other node
  reads its flag.
\<close>

definition new_Contents_MK_SC :: "nat \<Rightarrow> int \<Rightarrow> 'r::zero Contents_MK_SC" where
  "new_Contents_MK_SC sz stg =
     \<lparr> l = replicate sz 0, s = replicate sz 0, stage = stg, is_frozen_bit = True \<rparr>"

text \<open>
  \<^verbatim>\<open>tools::Generic_node\<close>: the pointer to the contents (null until allocated), the lane
  id and the children. A node without children is a leaf.
\<close>

datatype 'r Generic_node =
  Generic_node (get_contents: "'r Contents_MK_SC option") (get_lane_id: nat)
    (get_children: "'r Generic_node list")

definition is_leaf :: "'r Generic_node \<Rightarrow> bool" where
  "is_leaf node = (get_children node = [])"

text \<open>
  Modelled from the spec: \<^verbatim>\<open>tools::Generic_tree(depth, base)\<close> is not among the
  sources. It builds the complete tree of \<open>depth\<close> levels in which every internal node
  has \<open>base\<close> children, without contents; child \<open>i\<close> of the node of lane \<open>lane\<close> has
  lane \<open>lane * base + i\<close>, so the leaves carry the lanes 0, 1, 2, ... from left to right.
\<close>

fun create_nodes :: "nat \<Rightarrow> nat \<Rightarrow> nat \<Rightarrow> 'r Generic_node" where
  "create_nodes 0 base lane = Generic_node None lane []"
| "create_nodes (Suc levels) base lane =
     Generic_node None lane (map (\<lambda>i. create_nodes levels base (lane * base + i)) [0..<base])"

definition Generic_tree :: "nat \<Rightarrow> nat \<Rightarrow> 'r Generic_node" where
  "Generic_tree depth base = create_nodes (depth - 1) base 0"

text \<open>
  The decoder: the constants of every decoder, the code, the frozen bits, the tree (its
  root), the transposed kernels \<open>Ke\<close> and the combine functions \<open>lambdas\<close>. The members
  \<^verbatim>\<open>idx\<close>, \<^verbatim>\<open>u\<close>, \<^verbatim>\<open>LLRs\<close> and \<^verbatim>\<open>bits\<close> are scratch vectors, written before they
  are read in every use; the model keeps their sizes only: \<^verbatim>\<open>idx\<close> and \<^verbatim>\<open>u\<close> have
  \<open>biggest_kernel_size\<close> elements, \<^verbatim>\<open>LLRs\<close> as many as \<open>lambdas\<close>, \<^verbatim>\<open>bits\<close> one less.
\<close>

record 'r Decoder_polar_MK_SC_naive = Decoder_base +
  code :: Polar_code
  frozen_bits :: "bool list"
  polar_tree :: "'r Generic_node"
  Ke :: "int list list"
  lambdas :: "('r list \<Rightarrow> int list \<Rightarrow> 'r) list"

subsection \<open>The combine functions\<close>

text \<open>
  The class is instantiated (lines 398-405) with \<^verbatim>\<open>R\<close> one of \<^verbatim>\<open>Q_8\<close>, \<^verbatim>\<open>Q_16\<close>,
  \<^verbatim>\<open>Q_32\<close> and \<^verbatim>\<open>Q_64\<close>: the fixed-point types \<^verbatim>\<open>int8_t\<close> and \<^verbatim>\<open>int16_t\<close> and the
  floating-point types \<^verbatim>\<open>float\<close> and \<^verbatim>\<open>double\<close>. The combine functions are modelled
  for the fixed-point instantiations: an LLR is a signed integer of \<open>LENGTH('w)\<close> bits, a
  \<open>'w word\<close> read by \<open>sint\<close>. In an expression every LLR is promoted to \<^verbatim>\<open>int\<close>, where
  no negation, absolute value or sum of two operands of 8 or 16 bits overflows, so the
  expressions are computed on the integers; the lambda returns \<^verbatim>\<open>R\<close>, so its \<^verbatim>\<open>int\<close>
  result is narrowed to \<open>LENGTH('w)\<close> bits (\<open>word_of_int\<close>, which wraps modulo
  \<open>2 ^ LENGTH('w)\<close>). The floating-point instantiations, which round, are not modelled.
\<close>

text \<open>\<^verbatim>\<open>std::signbit\<close> on the value of an integer.\<close>

definition signbit :: "int \<Rightarrow> bool" where
  "signbit x = (x < 0)"

text \<open>
  Modelled from the spec: \<^verbatim>\<open>tools::h_LLR\<close> is declared in Tools/Math/utils.h, which is
  not among the sources; the hard decision of an LLR is 1 for a negative LLR and 0
  otherwise.
\<close>

definition h_LLR :: "'w::len word \<Rightarrow> int" where
  "h_LLR x = (if sint x < 0 then 1 else 0)"

text \<open>The three recognised kernels (lines 104, 123 and 154).\<close>

definition arikan_kernel :: "bool list list" where
  "arikan_kernel = [[True, False], [True, True]]"

definition kernel_111_101_011 :: "bool list list" where
  "kernel_111_101_011 = [[True, True, True], [True, False, True], [False, True, True]]"

definition kernel_100_110_101 :: "bool list list" where
  "kernel_100_110_101 = [[True, False, False], [True, True, False], [True, False, True]]"

text \<open>
  The combine functions of the Arikan kernel (lines 106-121). \<^verbatim>\<open>sign\<close>, \<^verbatim>\<open>abs0\<close>,
  \<^verbatim>\<open>abs1\<close> and \<^verbatim>\<open>min\<close> are \<^verbatim>\<open>auto\<close> variables of type \<^verbatim>\<open>int\<close>.
\<close>

definition lambdas_arikan :: "('w::len word list \<Rightarrow> int list \<Rightarrow> 'w word) list" where
  "lambdas_arikan =
     [\<lambda>LLRs bits.
        (let sign = (signbit (sint (LLRs ! 0)) \<noteq> signbit (sint (LLRs ! 1)));
             abs0 = \<bar>sint (LLRs ! 0)\<bar>;
             abs1 = \<bar>sint (LLRs ! 1)\<bar>;
             mn = min abs0 abs1
         in word_of_int (if sign then - mn else mn)),
      \<lambda>LLRs bits.
        word_of_int
          ((if bits ! 0 = 0 then sint (LLRs ! 0) else - sint (LLRs ! 0)) + sint (LLRs ! 1))]"

text \<open>The combine functions of the kernel 111/101/011 (lines 125-152).\<close>

definition lambdas_111_101_011 :: "('w::len word list \<Rightarrow> int list \<Rightarrow> 'w word) list" where
  "lambdas_111_101_011 =
     [\<lambda>LLRs bits.
        (let sign = ((signbit (sint (LLRs ! 0)) \<noteq> signbit (sint (LLRs ! 1))) \<noteq>
                     signbit (sint (LLRs ! 2)));
             abs0 = \<bar>sint (LLRs ! 0)\<bar>;
             abs1 = \<bar>sint (LLRs ! 1)\<bar>;
             abs2 = \<bar>sint (LLRs ! 2)\<bar>;
             mn = min (min abs0 abs1) abs2
         in word_of_int (if sign then - mn else mn)),
      \<lambda>LLRs bits.
        (let sign = (signbit (sint (LLRs ! 1)) \<noteq> signbit (sint (LLRs ! 2)));
             abs1 = \<bar>sint (LLRs ! 1)\<bar>;
             abs2 = \<bar>sint (LLRs ! 2)\<bar>;
             mn = min abs1 abs2;
             l1_l2 = (if sign then - mn else mn)
         in word_of_int ((if bits ! 0 = 0 then sint (LLRs ! 0) else - sint (LLRs ! 0)) + l1_l2)),
      \<lambda>LLRs bits.
        word_of_int
          ((if bits ! 0 = 0 then sint (LLRs ! 1) else - sint (LLRs ! 1)) +
           (if (bits ! 0) XOR (bits ! 1) = 0 then sint (LLRs ! 2) else - sint (LLRs ! 2)))]"

text \<open>
  The combine functions of the kernel 100/110/101 (lines 156-185). \<^verbatim>\<open>hl0\<close> is an
  \<^verbatim>\<open>auto\<close> variable of type \<^verbatim>\<open>int\<close>.
\<close>

definition lambdas_100_110_101 :: "('w::len word list \<Rightarrow> int list \<Rightarrow> 'w word) list" where
  "lambdas_100_110_101 =
     [\<lambda>LLRs bits.
        (let sign = ((signbit (sint (LLRs ! 0)) \<noteq> signbit (sint (LLRs ! 1))) \<noteq>
                     signbit (sint (LLRs ! 2)));
             abs0 = \<bar>sint (LLRs ! 0)\<bar>;
             abs1 = \<bar>sint (LLRs ! 1)\<bar>;
             abs2 = \<bar>sint (LLRs ! 2)\<bar>;
             mn = min (min abs0 abs1) abs2
         in word_of_int (if sign then - mn else mn)),
      \<lambda>LLRs bits.
        (let hl0 = (if bits ! 0 = 0 then sint (LLRs ! 0) else - sint (LLRs ! 0));
             sign = (signbit hl0 \<noteq> signbit (sint (LLRs ! 2)));
             abs0 = \<bar>hl0\<bar>;
             abs2 = \<bar>sint (LLRs ! 2)\<bar>;
             mn = min abs0 abs2;
             hl0_l2 = (if sign then - mn else mn)
         in word_of_int (hl0_l2 + sint (LLRs ! 1))),
      \<lambda>LLRs bits.
        (let hl0 = (if (bits ! 0) XOR (bits ! 1) = 0 then sint (LLRs ! 0) else - sint (LLRs ! 0))
         in word_of_int (hl0 + sint (LLRs ! 2)))]"

text \<open>
  The local \<^verbatim>\<open>same_polar_kernel\<close> (lines 88-102): equal sizes, rows of equal sizes,
  equal entries.
\<close>

definition same_polar_kernel :: "bool list list \<Rightarrow> bool list list \<Rightarrow> bool" where
  "same_polar_kernel a b = list_all2 (\<lambda>ra rb. list_all2 (\<lambda>x y. x = y) ra rb) a b"

subsection \<open>Construction\<close>

text \<open>
  \<^verbatim>\<open>recursive_allocate_nodes_contents\<close> (lines 277-287). \<open>stg\<close> is the stage the node
  gets: the number of stages minus one at the root, the stage of the father minus one
  below. The vector size of a child is that of its father divided by the size of the
  first kernel.
\<close>

fun recursive_allocate_nodes_contents ::
  "Polar_code \<Rightarrow> int \<Rightarrow> 'r::zero Generic_node \<Rightarrow> nat \<Rightarrow> 'r Generic_node" where
  "recursive_allocate_nodes_contents cd stg (Generic_node co lane ch) vector_size =
     Generic_node (Some (new_Contents_MK_SC vector_size stg)) lane
       (map (\<lambda>c. recursive_allocate_nodes_contents cd (stg - 1) c
                   (vector_size div length (kernel_matrices cd ! 0))) ch)"

text \<open>
  \<^verbatim>\<open>recursive_initialize_frozen_bits\<close> (lines 289-303). It is undefined at a leaf
  without contents or with a lane beyond the mask.
\<close>

fun recursive_initialize_frozen_bits ::
  "'r Generic_node \<Rightarrow> bool list \<Rightarrow> 'r Generic_node option" where
  "recursive_initialize_frozen_bits (Generic_node co lane ch) fb =
     (if ch \<noteq> [] then
        (case those (map (\<lambda>c. recursive_initialize_frozen_bits c fb) ch) of
           None \<Rightarrow> None
         | Some ch' \<Rightarrow> Some (Generic_node co lane ch'))
      else
        (case co of
           None \<Rightarrow> None
         | Some c \<Rightarrow>
             if lane < length fb
             then Some (Generic_node (Some (c\<lparr> is_frozen_bit := fb ! lane \<rparr>)) lane [])
             else None))"

text \<open>
  The initialisation of one \<open>Ke[ke]\<close> (lines 81-85): the kernel matrix transposed, row
  after row. It is undefined when a row of the matrix is shorter than the matrix.
\<close>

definition Ke_init :: "bool list list \<Rightarrow> int list option" where
  "Ke_init M =
     (let kernel_size = length M in
      if list_all (\<lambda>row. kernel_size \<le> length row) M then
        Some (concat (map (\<lambda>i. map (\<lambda>j. of_bool (M ! j ! i)) [0..<kernel_size]) [0..<kernel_size]))
      else None)"

text \<open>
  The checks every decoder makes on its constants. Modelled from the spec (section 7):
  the base class \<^verbatim>\<open>Decoder\<close> of this decoder is not among the sources; the checks are
  those of the constructor of \<^verbatim>\<open>Decoder_i\<close> (Decoder.hpp, lines 73-81).
\<close>

definition Decoder_checks :: "int \<Rightarrow> int \<Rightarrow> int \<Rightarrow> error option" where
  "Decoder_checks k n simd =
     (if k \<le> 0 then Some (invalid_argument ''K has to be greater than 0.'')
      else if n \<le> 0 then Some (invalid_argument ''N has to be greater than 0.'')
      else if simd \<le> 0 then
        Some (invalid_argument ''simd_inter_frame_level has to be greater than 0.'')
      else if k > n then Some (invalid_argument ''K has to be smaller than N.'')
      else None)"

text \<open>
  The constructor (lines 14-193). A failure carries the exception and the tree as it is
  when the exception is thrown: \<open>None\<close> while the member \<^verbatim>\<open>polar_tree\<close> does not exist
  yet. The member initialisers index the first kernel matrix and give \<^verbatim>\<open>bits\<close> its
  size minus one, which is undefined without a kernel or with an empty one.
\<close>

definition Decoder_polar_MK_SC_naive_ctor ::
  "int \<Rightarrow> int \<Rightarrow> Polar_code \<Rightarrow> bool list \<Rightarrow> int \<Rightarrow>
   (error \<times> 'w word Generic_node option) + 'w::len word Decoder_polar_MK_SC_naive" where
  "Decoder_polar_MK_SC_naive_ctor k n cd fb nf =
     (case Decoder_checks k n 1 of
        Some e \<Rightarrow> Inl (e, None)
      | None \<Rightarrow>
        if kernel_matrices cd = [] \<or> kernel_matrices cd ! 0 = [] then
          Inl (undefined_behaviour, None)
        else
          (let tree0 = Generic_tree (length (stages cd) + 1) (length (kernel_matrices cd ! 0));
               base = length (kernel_matrices cd ! 0)
           in
           if \<not> is_mono_kernel cd then
             Inl (invalid_argument ''code.is_mono_kernel() has to be true.'', Some tree0)
           else if base < 2 then
             Inl (invalid_argument ''base has to be bigger or equal to 2'', Some tree0)
           else if n \<noteq> codeword_size cd then
             Inl (invalid_argument ''N has to be equal to code.get_codeword_size()'',
                  Some tree0)
           else if n \<noteq> int (length fb) then
             Inl (length_error ''frozen_bits.size() has to be equal to N'', Some tree0)
           else if k \<noteq> int (length (filter (\<lambda>b. b = False) (take (nat n) fb))) then
             Inl (runtime_error
                    ''The number of information bits in the frozen_bits is invalid'',
                  Some tree0)
           else
             (let tree1 = recursive_allocate_nodes_contents cd (int (length (stages cd)) - 1)
                            tree0 (nat n)
              in
              case recursive_initialize_frozen_bits tree1 fb of
                None \<Rightarrow> Inl (undefined_behaviour, Some tree1)
              | Some tree2 \<Rightarrow>
                  (case those (map Ke_init (kernel_matrices cd)) of
                     None \<Rightarrow> Inl (undefined_behaviour, Some tree2)
                   | Some ke \<Rightarrow>
                       (let d = \<lparr> n_frames = nf, K = k, N = n, simd_inter_frame_level = 1,
                                  code = cd, frozen_bits = fb, polar_tree = tree2, Ke = ke,
                                  lambdas = [] \<rparr>
                        in
                        if same_polar_kernel (kernel_matrices cd ! 0) arikan_kernel then
                          Inr (d\<lparr> lambdas := lambdas_arikan \<rparr>)
                        else if same_polar_kernel (kernel_matrices cd ! 0) kernel_111_101_011 then
                          Inr (d\<lparr> lambdas := lambdas_111_101_011 \<rparr>)
                        else if same_polar_kernel (kernel_matrices cd ! 0) kernel_100_110_101 then
                          Inr (d\<lparr> lambdas := lambdas_100_110_101 \<rparr>)
                        else
                          Inl (runtime_error ''Unsupported polar kernel.'', Some tree2))))))"

text \<open>The combine functions the constructor installs for a recognised kernel.\<close>

definition recognised_lambdas ::
  "bool list list \<Rightarrow> ('w::len word list \<Rightarrow> int list \<Rightarrow> 'w word) list" where
  "recognised_lambdas G =
     (if G = arikan_kernel then lambdas_arikan
      else if G = kernel_111_101_011 then lambdas_111_101_011
      else lambdas_100_110_101)"

text \<open>\<^verbatim>\<open>notify_frozenbits_update\<close> (lines 202-207).\<close>

definition notify_frozenbits_update ::
  "'r Decoder_polar_MK_SC_naive \<Rightarrow> 'r Decoder_polar_MK_SC_naive option" where
  "notify_frozenbits_update d =
     (case recursive_initialize_frozen_bits (polar_tree d) (frozen_bits d) of
        None \<Rightarrow> None
      | Some t \<Rightarrow> Some (d\<lparr> polar_tree := t \<rparr>))"

subsection \<open>Decoding\<close>

text \<open>The partial sums of a node; none behind a null pointer.\<close>

definition node_s :: "'r Generic_node \<Rightarrow> int list" where
  "node_s node = (case get_contents node of None \<Rightarrow> [] | Some c \<Rightarrow> s c)"

text \<open>
  Entry \<open>i\<close> of the LLRs of a child (lines 321-324): \<^verbatim>\<open>LLRs\<close> gathers the LLRs of
  the father at \<open>l * sub_part + i\<close>, \<^verbatim>\<open>bits\<close> the partial sums at \<open>i\<close> of the children
  decoded before, and the combine function of the child is applied. \<open>ss\<close> holds the
  partial sums of the children decoded before. (What \<^verbatim>\<open>bits\<close> holds beyond them is
  stale; no combine function of a recognised kernel reads it.)
\<close>

definition child_llr ::
  "('r list \<Rightarrow> int list \<Rightarrow> 'r) \<Rightarrow> 'r list \<Rightarrow> nat \<Rightarrow> nat \<Rightarrow> int list list \<Rightarrow> nat \<Rightarrow> 'r" where
  "child_llr lambda pl kern_size sub_part ss i =
     lambda (map (\<lambda>k. pl ! (k * sub_part + i)) [0..<kern_size]) (map (\<lambda>sc. sc ! i) ss)"

text \<open>The local \<^verbatim>\<open>encode_polar_kernel\<close> (lines 330-340).\<close>

definition encode_polar_kernel ::
  "int list \<Rightarrow> nat list \<Rightarrow> int list \<Rightarrow> int list \<Rightarrow> nat \<Rightarrow> int list" where
  "encode_polar_kernel u idx Ke_s x sz =
     fold (\<lambda>i x. (let stride = i * sz;
                       sum = sum_list (map (\<lambda>j. (u ! j) AND (Ke_s ! (stride + j))) [0..<sz])
                   in x[idx ! i := sum AND 1]))
       [0..<sz] x"

text \<open>
  The re-encoding of the partial sums of an internal node with contents \<open>c\<close> from its
  decoded children \<open>ch\<close> (lines 342-358). With at least one kernel to encode it is
  undefined when \<open>sub_part\<close> is zero, when the kernel is bigger than the scratch vectors,
  when the stage names no kernel of \<open>Ke\<close> or a kernel that is too small, or when a child
  or a partial sum of a child that is read does not exist.
\<close>

definition reencode ::
  "'r Decoder_polar_MK_SC_naive \<Rightarrow> 'r Contents_MK_SC \<Rightarrow> 'r Generic_node list \<Rightarrow> int list option" where
  "reencode d c ch =
     (let kern_size = length ch;
          sub_part = length (l c) div kern_size;
          n_kernels = length (s c) div kern_size
      in
      if n_kernels = 0 then Some (s c)
      else if
        0 < sub_part \<and> kern_size \<le> biggest_kernel_size (code d) \<and>
        0 \<le> stage c \<and> nat (stage c) < length (stages (code d)) \<and>
        stages (code d) ! nat (stage c) < length (Ke d) \<and>
        kern_size * kern_size \<le> length (Ke d ! (stages (code d) ! nat (stage c))) \<and>
        list_all (\<lambda>k. list_all (\<lambda>i.
            (n_kernels * i + k) div sub_part < kern_size \<and>
            (n_kernels * i + k) mod sub_part
              < length (node_s (ch ! ((n_kernels * i + k) div sub_part))))
          [0..<kern_size]) [0..<n_kernels]
      then
        Some (fold (\<lambda>k x.
                (let idx = map (\<lambda>i. n_kernels * i + k) [0..<kern_size];
                     u = map (\<lambda>i. node_s (ch ! ((idx ! i) div sub_part)) ! ((idx ! i) mod sub_part))
                           [0..<kern_size]
                 in encode_polar_kernel u idx (Ke d ! (stages (code d) ! nat (stage c))) x
                      kern_size))
              [0..<n_kernels] (s c))
      else None)"

text \<open>
  \<^verbatim>\<open>recursive_decode\<close> (lines 305-365), with the loop over the children as a second
  function: \<open>decoded\<close> are the children already decoded, the list argument after it the
  children still to decode. The result is the node after the call, or nothing where the
  C++ code would dereference a null pointer or index outside a vector.
\<close>

fun recursive_decode ::
    "'w::len word Decoder_polar_MK_SC_naive \<Rightarrow> 'w word Generic_node \<Rightarrow>
     'w word Generic_node option"
  and decode_children ::
    "'w word Decoder_polar_MK_SC_naive \<Rightarrow> 'w word list \<Rightarrow> nat \<Rightarrow> nat \<Rightarrow>
     'w word Generic_node list \<Rightarrow> 'w word Generic_node list \<Rightarrow>
     'w word Generic_node list option" where
  "recursive_decode d (Generic_node co lane ch) =
     (case co of
        None \<Rightarrow> None
      | Some c \<Rightarrow>
          if ch \<noteq> [] then
            (let kern_size = length ch;
                 sub_part = length (l c) div kern_size
             in
             case decode_children d (l c) kern_size sub_part [] ch of
               None \<Rightarrow> None
             | Some ch' \<Rightarrow>
                 (case reencode d c ch' of
                    None \<Rightarrow> None
                  | Some x \<Rightarrow> Some (Generic_node (Some (c\<lparr> s := x \<rparr>)) lane ch')))
          else if s c = [] \<or> (\<not> is_frozen_bit c \<and> l c = []) then None
          else
            Some (Generic_node
                    (Some (c\<lparr> s := (s c)[0 := of_bool (\<not> is_frozen_bit c \<and> h_LLR (l c ! 0) \<noteq> 0)] \<rparr>))
                    lane []))"
| "decode_children d pl kern_size sub_part decoded [] = Some decoded"
| "decode_children d pl kern_size sub_part decoded (Generic_node co lane ch # rest) =
     (case co of
        None \<Rightarrow> None
      | Some c \<Rightarrow>
          if sub_part = 0 \<or>
             (kern_size \<le> length (lambdas d) \<and> sub_part \<le> length (l c) \<and>
              list_all (\<lambda>x. sub_part \<le> length (node_s x)) decoded)
          then
            (case recursive_decode d
                    (Generic_node
                       (Some (c\<lparr> l := map (child_llr (lambdas d ! length decoded) pl kern_size
                                              sub_part (map node_s decoded)) [0..<sub_part] @
                                        drop sub_part (l c) \<rparr>))
                       lane ch) of
               None \<Rightarrow> None
             | Some node' \<Rightarrow> decode_children d pl kern_size sub_part (decoded @ [node']) rest)
          else None)"

text \<open>\<^verbatim>\<open>_load\<close> (lines 209-217): the first \<open>N\<close> LLRs go to the root.\<close>

definition mk_load ::
  "'r Decoder_polar_MK_SC_naive \<Rightarrow> 'r list \<Rightarrow> 'r Decoder_polar_MK_SC_naive option" where
  "mk_load d Y =
     (case polar_tree d of
        Generic_node None lane ch \<Rightarrow> None
      | Generic_node (Some c) lane ch \<Rightarrow>
          if nat (N d) \<le> length Y \<and> nat (N d) \<le> length (l c) then
            Some (d\<lparr> polar_tree :=
                       Generic_node (Some (c\<lparr> l := take (nat (N d)) Y @ drop (nat (N d)) (l c) \<rparr>))
                         lane ch \<rparr>)
          else None)"

text \<open>
  \<^verbatim>\<open>recursive_store\<close> (lines 367-379), again with the loop over the children as a
  second function. The state is the output buffer and the counter \<open>k\<close>.
\<close>

fun recursive_store ::
    "'r Decoder_polar_MK_SC_naive \<Rightarrow> 'r Generic_node \<Rightarrow> int list \<times> nat \<Rightarrow> (int list \<times> nat) option"
  and store_children ::
    "'r Decoder_polar_MK_SC_naive \<Rightarrow> 'r Generic_node list \<Rightarrow> int list \<times> nat \<Rightarrow>
     (int list \<times> nat) option" where
  "recursive_store d (Generic_node co lane ch) Vk =
     (if ch \<noteq> [] then store_children d ch Vk
      else if \<not> lane < length (frozen_bits d) then None
      else if \<not> frozen_bits d ! lane then
        (case co of
           None \<Rightarrow> None
         | Some c \<Rightarrow>
             if s c \<noteq> [] \<and> snd Vk < length (fst Vk)
             then Some ((fst Vk)[snd Vk := s c ! 0], snd Vk + 1)
             else None)
      else Some Vk)"
| "store_children d [] Vk = Some Vk"
| "store_children d (c # cs) Vk =
     (case recursive_store d c Vk of
        None \<Rightarrow> None
      | Some Vk' \<Rightarrow> store_children d cs Vk')"

text \<open>\<^verbatim>\<open>_store\<close> (lines 261-275).\<close>

definition mk_store :: "'r Decoder_polar_MK_SC_naive \<Rightarrow> int list \<Rightarrow> bool \<Rightarrow> int list option" where
  "mk_store d V coded =
     (if \<not> coded then
        (case recursive_store d (polar_tree d) (V, 0) of
           None \<Rightarrow> None
         | Some Vk \<Rightarrow> Some (fst Vk))
      else
        (case get_contents (polar_tree d) of
           None \<Rightarrow> None
         | Some contents_root \<Rightarrow>
             if nat (N d) \<le> length (s contents_root) \<and> nat (N d) \<le> length V
             then Some (take (nat (N d)) (s contents_root) @ drop (nat (N d)) V)
             else None))"


definition decode_siho_cw ::
  "'w::len word Decoder_polar_MK_SC_naive \<Rightarrow> 'w word list \<Rightarrow> int list \<Rightarrow>
   ('w word Decoder_polar_MK_SC_naive \<times> int list) option" where
  "decode_siho_cw d Y V =
     (case mk_load d Y of
        None \<Rightarrow> None
      | Some d1 \<Rightarrow>
          (case recursive_decode d1 (polar_tree d1) of
             None \<Rightarrow> None
           | Some t \<Rightarrow>
               (case mk_store (d1\<lparr> polar_tree := t \<rparr>) V True of
                  None \<Rightarrow> None
                | Some V' \<Rightarrow> Some (d1\<lparr> polar_tree := t \<rparr>, V'))))"

subsection \<open>The encoder\<close>

text \<open>
  Modelled from the spec: the encoder of these codes is not among the sources. It is
  the generalised kernel transform of section 4.4, step 2, as the decoder re-encodes:
  from the codewords \<open>xs\<close> of the children of a node (child \<open>j\<close> is \<open>xs ! j\<close>), position
  \<open>n * i + k\<close> of the codeword of the node is the exclusive or of the bits \<open>xs ! j ! k\<close>
  that row \<open>i\<close> of the transposed kernel selects, which are those with \<open>G ! j ! i\<close>.
\<close>

definition xor_bits :: "int list \<Rightarrow> int" where
  "xor_bits bs = foldr (XOR) bs 0"

definition kernel_transform :: "bool list list \<Rightarrow> int list list \<Rightarrow> int list" where
  "kernel_transform G xs =
     concat (map (\<lambda>i. map (\<lambda>k. xor_bits (map (\<lambda>j. if G ! j ! i then xs ! j ! k else 0)
                                            [0..<length G]))
                        [0..<length (xs ! 0)])
                 [0..<length G])"

text \<open>
  Modelled from the spec: the codeword of the \<open>length G ^ m\<close> bits \<open>u\<close> at the leaves of a
  tree of \<open>m\<close> stages. The bits of child \<open>j\<close> are frame \<open>j\<close> of \<open>u\<close>.
\<close>

fun polar_encode :: "bool list list \<Rightarrow> nat \<Rightarrow> int list \<Rightarrow> int list" where
  "polar_encode G 0 u = u"
| "polar_encode G (Suc m) u =
     kernel_transform G (map (\<lambda>j. polar_encode G m (frame (length G ^ m) j u)) [0..<length G])"





subsection \<open>The shape of the tree\<close>

text \<open>
  The tree the constructor leaves behind for a kernel of size \<open>b\<close>, \<open>m\<close> stages and the
  mask \<open>fb\<close>: the subtree of \<open>m\<close> stages whose root has lane \<open>lane\<close>.
\<close>

fun built_tree :: "nat \<Rightarrow> nat \<Rightarrow> nat \<Rightarrow> bool list \<Rightarrow> 'r::zero Generic_node" where
  "built_tree b 0 lane fb =
     Generic_node (Some ((new_Contents_MK_SC 1 (- 1))\<lparr> is_frozen_bit := fb ! lane \<rparr>)) lane []"
| "built_tree b (Suc m) lane fb =
     Generic_node (Some (new_Contents_MK_SC (b ^ Suc m) (int m))) lane
       (map (\<lambda>i. built_tree b m (lane * b + i) fb) [0..<b])"

text \<open>
  A well-formed subtree of \<open>m\<close> stages over a kernel of size \<open>b\<close>: every node has its
  contents, a leaf has one LLR and one partial sum, an internal node of stage \<open>m - 1\<close>
  has \<open>b\<close> well-formed children and \<open>b ^ m\<close> LLRs and partial sums.
\<close>

fun wf_node :: "nat \<Rightarrow> nat \<Rightarrow> 'r Generic_node \<Rightarrow> bool" where
  "wf_node b 0 node =
     (get_children node = [] \<and>
      (case get_contents node of
         None \<Rightarrow> False
       | Some c \<Rightarrow> length (l c) = 1 \<and> length (s c) = 1))"
| "wf_node b (Suc m) node =
     (length (get_children node) = b \<and> list_all (wf_node b m) (get_children node) \<and>
      (case get_contents node of
         None \<Rightarrow> False
       | Some c \<Rightarrow> length (l c) = b ^ Suc m \<and> length (s c) = b ^ Suc m \<and> stage c = int m))"

text \<open>The leaves of a subtree from left to right, and what they carry.\<close>

fun leaves :: "'r Generic_node \<Rightarrow> 'r Generic_node list" where
  "leaves (Generic_node co lane ch) =
     (if ch = [] then [Generic_node co lane ch] else concat (map leaves ch))"

definition node_l :: "'r Generic_node \<Rightarrow> 'r list" where
  "node_l node = (case get_contents node of None \<Rightarrow> [] | Some c \<Rightarrow> l c)"

definition leaf_bits :: "'r Generic_node \<Rightarrow> int list" where
  "leaf_bits node = map (\<lambda>x. node_s x ! 0) (leaves node)"

definition leaf_frozen :: "'r Generic_node \<Rightarrow> bool list" where
  "leaf_frozen node =
     map (\<lambda>x. case get_contents x of None \<Rightarrow> True | Some c \<Rightarrow> is_frozen_bit c) (leaves node)"

definition leaf_lanes :: "'r Generic_node \<Rightarrow> nat list" where
  "leaf_lanes node = map get_lane_id (leaves node)"

definition bits01 :: "int list \<Rightarrow> bool" where
  "bits01 bs = list_all (\<lambda>b. b = 0 \<or> b = 1) bs"

text \<open>
  Every internal node of a subtree holds the kernel transform of the partial sums of its
  children.
\<close>

fun reencoded :: "bool list list \<Rightarrow> 'r Generic_node \<Rightarrow> bool" where
  "reencoded G (Generic_node co lane ch) =
     (ch = [] \<or>
      (node_s (Generic_node co lane ch) = kernel_transform G (map node_s ch) \<and>
       list_all (reencoded G) ch))"


text \<open>
  What decoding reads of a decoder built for the mono-kernel code over the square kernel
  \<open>G\<close>: one combine function per child, a kernel that fits the scratch vectors, stages
  that all name the first kernel, and the transposed \<open>G\<close> as \<open>Ke ! 0\<close>.
\<close>

definition mono_decoder :: "bool list list \<Rightarrow> 'r Decoder_polar_MK_SC_naive \<Rightarrow> bool" where
  "mono_decoder G d =
     (G \<noteq> [] \<and> list_all (\<lambda>row. length row = length G) G \<and>
      length (lambdas d) = length G \<and>
      length G \<le> biggest_kernel_size (code d) \<and>
      list_all (\<lambda>st. st = 0) (stages (code d)) \<and>
      Ke d \<noteq> [] \<and> Ke_init G = Some (Ke d ! 0))"

text \<open>
  What \<^verbatim>\<open>recursive_decode\<close> leaves of a well-formed subtree \<open>node\<close> of \<open>m\<close> stages, as
  \<open>node'\<close>: the same shape, lanes and frozen flags, partial sums that are bits, every
  internal node re-encoded from its children, and at the root of the subtree the
  codeword of the bits at the leaves.
\<close>

definition decoded_node ::
  "bool list list \<Rightarrow> nat \<Rightarrow> 'r Generic_node \<Rightarrow> 'r Generic_node \<Rightarrow> bool" where
  "decoded_node G m node node' =
     (wf_node (length G) m node' \<and> leaf_lanes node' = leaf_lanes node \<and>
      leaf_frozen node' = leaf_frozen node \<and> bits01 (node_s node') \<and> reencoded G node' \<and>
      node_s node' = polar_encode G m (leaf_bits node'))"


section \<open>Example values\<close>

text \<open>
  The task that \<^verbatim>\<open>create_socket_out\<close> makes of a fresh task with automatic allocation:
  one output socket of four 32-bit elements, bound to the first owned buffer, and the
  default codelet.
\<close>

definition bound_task :: "unit Task" where
  "bound_task =
     \<lparr> task_name = ''decode'', autoalloc = True, autoexec = False, stats = True, debug = False,
       debug_limit = - 1, debug_precision = 2,
       codelet = (\<lambda>w. (Inl unimplemented_error, w)),
       n_calls = 0, duration_total = 0, duration_min = 0, duration_max = 0,
       socket = [\<lparr> socket_name = ''V_K'', socket_datatype = T_int32, databytes = 16,
                   dataptr = out_buffer 0 \<rparr>],
       socket_type = [''V_K'' \<mapsto> OUT], out_buffers = [16] \<rparr>"

text \<open>
  A decoder for the frame-batch contract: \<^verbatim>\<open>_load\<close> keeps the LLRs, \<^verbatim>\<open>_hard_decode\<close>
  does nothing and \<^verbatim>\<open>_store\<close> writes, frame by frame, the hard decisions (negative LLR
  gives 1) on the first \<open>k\<close> LLRs of each of the \<open>sd\<close> frames of the wave.
\<close>

definition hard_bits :: "nat \<Rightarrow> nat \<Rightarrow> nat \<Rightarrow> int list \<Rightarrow> int list" where
  "hard_bits k n sd y =
     concat (map (\<lambda>fr. map (\<lambda>i. if y ! (fr * n + i) < 0 then 1 else 0) [0..<k]) [0..<sd])"

definition hard_store :: "nat \<Rightarrow> nat \<Rightarrow> nat \<Rightarrow> int list \<Rightarrow> int list \<Rightarrow> int list" where
  "hard_store k n sd st V = take (length V) (hard_bits k n sd st @ drop (sd * k) V)"

definition hard_decoder :: "nat \<Rightarrow> nat \<Rightarrow> nat \<Rightarrow> nat \<Rightarrow> (int, int, int list) Decoder_i" where
  "hard_decoder k n f sd =
     \<lparr> n_frames = int f, K = int k, N = int n, simd_inter_frame_level = int sd,
       n_dec_waves = (int f + int sd - 1) div int sd,
       n_inter_frame_rest = int f mod int sd,
       Y_N = replicate (nat ((int f + int sd - 1) div int sd)) (replicate (nat (int sd * int n) + 0) 0),
       V_N = replicate (nat ((int f + int sd - 1) div int sd)) (replicate (nat (int sd * int n) + 0) 0),
       impl = [], load_v = (\<lambda>Y st. Y), hard_decode_v = (\<lambda>st. st),
       store_v = hard_store k n sd, store_fast_v = hard_store k n sd,
       unpack_v = (\<lambda>st V. V) \<rparr>"

text \<open>What the decoder above makes of one frame: the hard decisions on its first \<open>k\<close> LLRs.\<close>

definition hard_frame :: "nat \<Rightarrow> int list \<Rightarrow> int list" where
  "hard_frame k y = map (\<lambda>i. if y ! i < 0 then 1 else 0) [0..<k]"

text \<open>
  Mono-kernel codes of \<open>m\<close> stages over a kernel \<open>G\<close>, as \<^verbatim>\<open>Polar_code\<close> describes
  them.
\<close>

definition mono_code :: "bool list list \<Rightarrow> nat \<Rightarrow> Polar_code" where
  "mono_code G m =
     \<lparr> kernel_matrices = [G], stages = replicate m 0, codeword_size = int (length G ^ m),
       is_mono_kernel = True, biggest_kernel_size = length G \<rparr>"

section \<open>Properties\<close>

subsection \<open>Tasks\<close>

text \<open>The public creators keep every socket typed.\<close>

lemma sockets_typed_ctor: "sockets_typed (Task_ctor nm a b c e)"
  by (simp add: sockets_typed_def Task_ctor_def)

lemma create_socket_socket:
  "create_socket t ty nm n = Inr t' \<Longrightarrow>
   socket t' = socket t @ [\<lparr> socket_name = nm, socket_datatype = ty, databytes = n * sizeof ty, dataptr = nullptr \<rparr>]
   \<and> socket_type t' = socket_type t \<and> autoalloc t' = autoalloc t \<and> out_buffers t' = out_buffers t"
  by (auto simp: create_socket_def split: if_splits)

lemma sockets_typed_create_in:
  "sockets_typed t \<Longrightarrow> create_socket_in t ty nm n = Inr t' \<Longrightarrow> sockets_typed t'"
  by (auto simp: create_socket_in_def sockets_typed_def list_all_iff split: sum.splits dest!: create_socket_socket)

lemma sockets_typed_create_in_out:
  "sockets_typed t \<Longrightarrow> create_socket_in_out t ty nm n = Inr t' \<Longrightarrow> sockets_typed t'"
  by (auto simp: create_socket_in_out_def sockets_typed_def list_all_iff split: sum.splits dest!: create_socket_socket)

lemma sockets_typed_create_out:
  "sockets_typed t \<Longrightarrow> create_socket_out t ty nm n = Inr t' \<Longrightarrow> sockets_typed t'"
  by (auto simp: create_socket_out_def sockets_typed_def list_all_iff Let_def butlast_append split: sum.splits if_splits dest!: create_socket_socket)

text \<open>
  Claim C8, as amended. On any task: creating a socket with an empty name fails; creating
  a socket whose name an existing socket has fails, through \<^verbatim>\<open>create_socket\<close> and
  through the three public creators; \<^verbatim>\<open>exec\<close> fails, and leaves the task as it is,
  while the data pointer of any socket is null; and once every socket is bound (on a task
  whose sockets all have a type, as they have when made by the public creators), a call of
  \<^verbatim>\<open>exec\<close> whose codelet returns normally returns the codelet's status and adds one to
  the 32-bit call counter.
\<close>

theorem task_port_contract:
  "(create_socket t ty [] n =
      Inl (runtime_error ''Impossible to create this socket because the name is empty'')) \<and>
   (nm \<noteq> [] \<and> nm \<in> socket_name ` set (socket t) \<longrightarrow>
      create_socket t ty nm n =
        Inl (runtime_error
          ''Impossible to create this socket because an other socket has the same name'') \<and>
      create_socket_in t ty nm n = create_socket t ty nm n \<and>
      create_socket_in_out t ty nm n = create_socket t ty nm n \<and>
      create_socket_out t ty nm n = create_socket t ty nm n) \<and>
   ((\<exists>sck \<in> set (socket t). dataptr sck = nullptr) \<longrightarrow>
      exec t d w =
        (Inl (runtime_error
           ''The task cannot be executed because some of the inputs/outputs are not fed''), t, w)) \<and>
   ((\<forall>sck \<in> set (socket t). dataptr sck \<noteq> nullptr) \<and> sockets_typed t \<and>
    codelet t w = (Inr status, w') \<longrightarrow>
      (\<exists>t'. exec t d w = (Inr status, t', w') \<and> n_calls t' = n_calls t + 1 \<and>
            socket t' = socket t \<and> codelet t' = codelet t \<and> socket_type t' = socket_type t))"
proof (intro conjI impI)
  show "create_socket t ty [] n =
      Inl (runtime_error ''Impossible to create this socket because the name is empty'')"
    by (simp add: create_socket_def)
next
  assume a: "nm \<noteq> [] \<and> nm \<in> socket_name ` set (socket t)"
  then show dup: "create_socket t ty nm n =
        Inl (runtime_error
          ''Impossible to create this socket because an other socket has the same name'')"
    by (auto simp: create_socket_def list_ex_iff)
  show "create_socket_in t ty nm n = create_socket t ty nm n"
    by (simp add: create_socket_in_def dup)
  show "create_socket_in_out t ty nm n = create_socket t ty nm n"
    by (simp add: create_socket_in_out_def dup)
  show "create_socket_out t ty nm n = create_socket t ty nm n"
    by (simp add: create_socket_out_def dup)
next
  assume "\<exists>sck \<in> set (socket t). dataptr sck = nullptr"
  then have "\<not> can_exec t" by (auto simp: can_exec_def list_all_iff)
  then show "exec t d w =
        (Inl (runtime_error
           ''The task cannot be executed because some of the inputs/outputs are not fed''), t, w)"
    by (simp add: exec_def)
next
  assume a: "(\<forall>sck \<in> set (socket t). dataptr sck \<noteq> nullptr) \<and> sockets_typed t \<and>
    codelet t w = (Inr status, w')"
  then have c: "can_exec t" by (auto simp: can_exec_def list_all_iff)
  from a have ty: "\<not> list_ex (\<lambda>sck. socket_type t (socket_name sck) = None) (socket t)"
    by (auto simp: sockets_typed_def list_all_iff list_ex_iff)
  from a c ty show "\<exists>t'. exec t d w = (Inr status, t', w') \<and> n_calls t' = n_calls t + 1 \<and>
            socket t' = socket t \<and> codelet t' = codelet t \<and> socket_type t' = socket_type t"
    by (simp add: exec_def Let_def)
qed

text \<open>The contract at concrete tasks: a duplicate name, an unfed socket, a ready task.\<close>

theorem task_port_contract_witness:
  "create_socket bound_task T_int32 ''V_K'' 4 =
     Inl (runtime_error
       ''Impossible to create this socket because an other socket has the same name'') \<and>
   fst (exec (bound_task\<lparr> socket := [\<lparr> socket_name = ''Y_N'', socket_datatype = T_float,
                                       databytes = 32, dataptr = nullptr \<rparr>] \<rparr>) 7 ()) =
     Inl (runtime_error
        ''The task cannot be executed because some of the inputs/outputs are not fed'') \<and>
   fst (exec (create_codelet bound_task (\<lambda>w. (Inr 0, w))) 7 ()) = Inr 0 \<and>
   n_calls (fst (snd (exec (create_codelet bound_task (\<lambda>w. (Inr 0, w))) 7 ()))) = 1"
proof -
  let ?unfed = "bound_task\<lparr> socket := [\<lparr> socket_name = ''Y_N'', socket_datatype = T_float,
                                         databytes = 32, dataptr = nullptr \<rparr>] \<rparr>"
  let ?ready = "create_codelet bound_task (\<lambda>w. (Inr 0, w))"
  have dup: "''V_K'' \<noteq> [] \<and> ''V_K'' \<in> socket_name ` set (socket bound_task)"
    by (simp add: bound_task_def)
  have unfed: "\<exists>sck \<in> set (socket ?unfed). dataptr sck = nullptr"
    by simp
  have ready: "(\<forall>sck \<in> set (socket ?ready). dataptr sck \<noteq> nullptr) \<and> sockets_typed ?ready \<and>
               codelet ?ready () = (Inr 0, ())"
    by (simp add: bound_task_def create_codelet_def sockets_typed_def)
  have n0: "n_calls ?ready = 0"
    by (simp add: bound_task_def create_codelet_def)
  from dup task_port_contract [of bound_task T_int32 4 "''V_K''" 7 "()" 0 "()"]
  have p1: "create_socket bound_task T_int32 ''V_K'' 4 =
     Inl (runtime_error
       ''Impossible to create this socket because an other socket has the same name'')"
    by blast
  from unfed task_port_contract [of ?unfed T_int32 4 "''V_K''" 7 "()" 0 "()"]
  have "exec ?unfed 7 () =
     (Inl (runtime_error
        ''The task cannot be executed because some of the inputs/outputs are not fed''),
      ?unfed, ())"
    by blast
  then have p2: "fst (exec ?unfed 7 ()) =
     Inl (runtime_error
        ''The task cannot be executed because some of the inputs/outputs are not fed'')"
    by (rule arg_cong [where f = fst, THEN trans]) (rule fst_conv)
  from ready task_port_contract [of ?ready T_int32 4 "''V_K''" 7 "()" 0 "()"]
  obtain t' where t': "exec ?ready 7 () = (Inr 0, t', ())" "n_calls t' = n_calls ?ready + 1"
    by blast
  from t' n0 have p3: "fst (exec ?ready 7 ()) = Inr 0"
    and p4: "n_calls (fst (snd (exec ?ready 7 ()))) = 1"
    by simp_all
  from p1 p2 p3 p4 show ?thesis by blast
qed

text \<open>
  Claim C8 as stated fails where no codelet was bound: the task below is the result of
  \<^verbatim>\<open>create_socket_out\<close> with automatic allocation, so its only socket is bound, yet
  \<^verbatim>\<open>exec\<close> throws the default codelet's \<^verbatim>\<open>unimplemented_error\<close> and the call counter
  stays at zero.
\<close>

theorem task_exec_default_codelet_counterexample:
  "create_socket_out (Task_ctor ''decode'' True False True False) T_int32 ''V_K'' 4 = Inr bound_task \<and>
   can_exec bound_task \<and>
   exec bound_task 7 () = (Inl unimplemented_error, bound_task, ()) \<and>
   n_calls bound_task = 0"
  by (simp add: bound_task_def create_socket_out_def create_socket_def Task_ctor_def Let_def
      exec_def can_exec_def)

text \<open>
  Claim C9. The default codelet of a fresh task throws \<^verbatim>\<open>unimplemented_error\<close>; and
  whenever the codelet throws, the call of \<^verbatim>\<open>exec\<close> fails and leaves the call counter
  and the total, minimal and maximal durations as they were (with the codelet's own
  exception when the task was executable).
\<close>

theorem exec_throw_keeps_statistics:
  "codelet (Task_ctor nm aa ae sts dbg) w0 = (Inl unimplemented_error, w0) \<and>
   (codelet t w = (Inl e, w') \<longrightarrow>
      n_calls (fst (snd (exec t d w))) = n_calls t \<and>
      duration_total (fst (snd (exec t d w))) = duration_total t \<and>
      duration_min (fst (snd (exec t d w))) = duration_min t \<and>
      duration_max (fst (snd (exec t d w))) = duration_max t \<and>
      (\<exists>e'. fst (exec t d w) = Inl e') \<and>
      (can_exec t \<and> sockets_typed t \<longrightarrow> fst (exec t d w) = Inl e))"
  by (auto simp: Task_ctor_def exec_def sockets_typed_def list_all_iff list_ex_iff)

text \<open>The bound task with the default codelet: the exception passes, the statistics stay.\<close>

theorem exec_throw_keeps_statistics_witness:
  "codelet bound_task () = (Inl unimplemented_error, ()) \<and> can_exec bound_task \<and> sockets_typed bound_task \<and>
   n_calls (fst (snd (exec bound_task 7 ()))) = 0 \<and>
   duration_total (fst (snd (exec bound_task 7 ()))) = 0 \<and>
   duration_min (fst (snd (exec bound_task 7 ()))) = 0 \<and>
   duration_max (fst (snd (exec bound_task 7 ()))) = 0 \<and>
   fst (exec bound_task 7 ()) = Inl unimplemented_error"
  using exec_throw_keeps_statistics [of "''decode''" True False True False "()" bound_task "()" unimplemented_error "()" 7]
  by (simp add: bound_task_def can_exec_def sockets_typed_def)

subsection \<open>The frame-batch decode contract\<close>

text \<open>The wave counts: the ceiling, and the frames of each wave.\<close>

lemma ceil_div_eq:
  fixes n sd :: int
  assumes "0 < sd"
  shows "(n + sd - 1) div sd = n div sd + (if n mod sd = 0 then 0 else 1)"
proof (cases "n mod sd = 0")
  case True
  have "n + sd - 1 = sd * (n div sd) + (sd - 1)" using True mult_div_mod_eq[of sd n] by simp
  then have "(n + sd - 1) div sd = n div sd"
    using assms int_div_pos_eq[of "n + sd - 1" sd "n div sd" "sd - 1"] by simp
  with True show ?thesis by simp
next
  case False
  have "0 \<le> n mod sd" "n mod sd < sd" using assms by simp_all
  with False have r: "0 \<le> n mod sd - 1" "n mod sd - 1 < sd" by linarith+
  have "n + sd - 1 = sd * (n div sd + 1) + (n mod sd - 1)"
    using mult_div_mod_eq[of sd n] by (simp add: algebra_simps)
  then have "(n + sd - 1) div sd = n div sd + 1"
    using r int_div_pos_eq[of "n + sd - 1" sd "n div sd + 1" "n mod sd - 1"] by simp
  with False show ?thesis by simp
qed

lemma wave_frames_bound:
  assumes "decoder_inv d" "w < nat (n_dec_waves d)"
  shows "0 < n_frames_per_wave d w \<and> n_frames_per_wave d w \<le> simd_inter_frame_level d \<and>
         int w * simd_inter_frame_level d + n_frames_per_wave d w \<le> n_frames d \<and>
         (n_frames_per_wave d w = simd_inter_frame_level d \<or>
          int w * simd_inter_frame_level d + n_frames_per_wave d w = n_frames d)"
proof -
  let ?sd = "simd_inter_frame_level d" and ?n = "n_frames d"
  from assms(1) have sd: "0 < ?sd" and n: "0 < ?n"
    and wv0: "n_dec_waves d = (?n + ?sd - 1) div ?sd"
    and rs: "n_inter_frame_rest d = ?n mod ?sd"
    unfolding decoder_inv_def by blast+
  have wv: "n_dec_waves d = ?n div ?sd + (if ?n mod ?sd = 0 then 0 else 1)"
    unfolding wv0 using sd by (rule ceil_div_eq)
  have m: "0 \<le> ?n mod ?sd" "?n mod ?sd < ?sd" using sd by simp_all
  have dm: "?n div ?sd * ?sd + ?n mod ?sd = ?n" by (rule div_mult_mod_eq)
  show ?thesis
  proof (cases "int w = n_dec_waves d - 1 \<and> ?n mod ?sd \<noteq> 0")
    case True
    then have "int w = ?n div ?sd" using wv by simp
    then have "int w * ?sd + ?n mod ?sd = ?n" using dm by simp
    moreover have "n_frames_per_wave d w = ?n mod ?sd"
      using True by (simp add: n_frames_per_wave_def rs)
    ultimately show ?thesis using True m by linarith
  next
    case False
    then have npw: "n_frames_per_wave d w = ?sd"
      unfolding n_frames_per_wave_def rs by presburger
    from assms(2) have "int w < n_dec_waves d" by linarith
    with False wv have "int w + 1 \<le> ?n div ?sd"
      by (cases "?n mod ?sd = 0") simp_all
    then have "(int w + 1) * ?sd \<le> (?n div ?sd) * ?sd" using sd by (intro mult_right_mono) simp_all
    also have "\<dots> \<le> ?n" using m dm by linarith
    finally have "int w * ?sd + ?sd \<le> ?n" by (simp add: algebra_simps)
    then show ?thesis using sd npw by simp
  qed
qed


lemma std_copy_length: "std_copy src a b dst off = Some r \<Longrightarrow> length r = length dst"
  by (auto simp: std_copy_def split: if_splits)

lemma std_copy_Some:
  "a \<le> b \<Longrightarrow> b \<le> length src \<Longrightarrow> off + (b - a) \<le> length dst \<Longrightarrow>
   std_copy src a b dst off = Some (take off dst @ take (b - a) (drop a src) @ drop (off + (b - a)) dst)"
  by (simp add: std_copy_def)

lemma decoder_inv_nat:
  assumes "decoder_inv d"
  obtains sd n k f where "simd_inter_frame_level d = int sd" "N d = int n" "K d = int k"
    "n_frames d = int f" "0 < sd" "0 < k" "k \<le> n" "0 < f"
proof -
  from assms have "0 < K d" "K d \<le> N d" "0 < simd_inter_frame_level d" "0 < n_frames d"
    unfolding decoder_inv_def by blast+
  then have "simd_inter_frame_level d = int (nat (simd_inter_frame_level d))"
    "N d = int (nat (N d))" "K d = int (nat (K d))" "n_frames d = int (nat (n_frames d))"
    "0 < nat (simd_inter_frame_level d)" "0 < nat (K d)" "nat (K d) \<le> nat (N d)" "0 < nat (n_frames d)"
    by simp_all
  then show thesis by (rule that)
qed

lemma wave_frames_nat:
  assumes "decoder_inv d" "w < nat (n_dec_waves d)" "simd_inter_frame_level d = int sd" "n_frames d = int f"
  obtains p where "n_frames_per_wave d w = int p" "0 < p" "p \<le> sd" "w * sd + p \<le> f"
    "p = sd \<or> w * sd + p = f"
proof -
  from wave_frames_bound[OF assms(1,2)] assms(3,4)
  have b: "0 < n_frames_per_wave d w" "n_frames_per_wave d w \<le> int sd"
    "int w * int sd + n_frames_per_wave d w \<le> int f"
    "n_frames_per_wave d w = int sd \<or> int w * int sd + n_frames_per_wave d w = int f" by simp_all
  define p where "p = nat (n_frames_per_wave d w)"
  have 1: "n_frames_per_wave d w = int p" using b by (simp add: p_def)
  have 2: "0 < p" "p \<le> sd" using b by (simp_all add: p_def)
  have "int (w * sd + p) \<le> int f" using b 1 by simp
  then have 3: "w * sd + p \<le> f" by (simp only: of_nat_le_iff)
  have "int p = int sd \<or> int (w * sd + p) = int f" using b 1 by simp
  then have 4: "p = sd \<or> w * sd + p = f" by (simp only: of_nat_eq_iff)
  from 1 2 3 4 show thesis by (rule that)
qed


lemma nat_prod3: "nat (int a * int b * int c) = a * b * c"
  by (simp add: nat_mult_distrib)

lemma nat_prod3_plus: "nat (int a * int b * int c + int p * int c) = a * b * c + p * c"
  by (simp add: nat_add_distrib nat_mult_distrib)

lemma nat_prod2: "nat (int a * int b) = a * b"
  by (simp add: nat_mult_distrib)

lemma private_hard_decode_ok:
  assumes "load \<longrightarrow> N d * simd_inter_frame_level d \<le> int (length Y)"
    and "store \<and> \<not> store_fast \<longrightarrow> K d * simd_inter_frame_level d \<le> int (length V)"
  shows "private_hard_decode d Y V load store store_fast unpack =
     Inr (hard_decode_v d (if load then load_v d Y (impl d) else impl d),
          let st = hard_decode_v d (if load then load_v d Y (impl d) else impl d) in
          if store then
            (if store_fast then
               (if unpack then unpack_v d st (store_fast_v d st V) else store_fast_v d st V)
             else store_v d st V)
          else V)"
  using assms by (auto simp: private_hard_decode_def Let_def)

lemma hard_decode_wave_char:
  fixes d :: "('b, 'r, 'st) Decoder_i" and Y :: "'r list" and V :: "'b list"
    and load store store_fast unpack :: bool and w sd n k f p :: nat
  assumes inv: "decoder_inv d" and w: "w < nat (n_dec_waves d)"
    and lenY: "int (length Y) = N d * n_frames d"
    and nats: "simd_inter_frame_level d = int sd" "N d = int n" "K d = int k" "n_frames d = int f"
      "n_frames_per_wave d w = int p"
  defines "y \<equiv> (if load then take (p * n) (drop (w * sd * n) Y) @ drop (p * n) (Y_N d ! w) else Y_N d ! w)"
  defines "st \<equiv> hard_decode_v d (if load then load_v d y (impl d) else impl d)"
  defines "v \<equiv> (if store then
            (if store_fast then
               (if unpack then unpack_v d st (store_fast_v d st (V_N d ! w)) else store_fast_v d st (V_N d ! w))
             else store_v d st (V_N d ! w))
          else V_N d ! w)"
  defines "d2 \<equiv> d\<lparr> Y_N := (Y_N d)[w := y], impl := st, V_N := (V_N d)[w := v] \<rparr>"
  assumes lenv: "length v = length (V_N d ! w)"
  shows "hard_decode_wave Y load store store_fast unpack w (d, V) =
     (if store then
        (if length V = k * f then
           Inr (d2, take (w * sd * k) V @ take (p * k) v @ drop (w * sd * k + p * k) V)
         else if length V = n * f then
           Inr (d2, take (w * sd * n) V @ take (p * n) v @ drop (w * sd * n + p * n) V)
         else Inl (runtime_error ''this should never happen, V_K is not a multiple of K or of N.''))
      else Inr (d2, V))"
proof -
  from inv have lens: "length (Y_N d) = nat (n_dec_waves d)" "length (V_N d) = nat (n_dec_waves d)"
    and sz: "list_all (\<lambda>y. nat (simd_inter_frame_level d * N d) \<le> length y) (Y_N d)"
      "list_all (\<lambda>v. nat (simd_inter_frame_level d * N d) \<le> length v) (V_N d)"
    and kn: "0 < K d" "K d \<le> N d" "0 < n_frames d" "0 < simd_inter_frame_level d"
    unfolding decoder_inv_def by blast+
  from wave_frames_nat[OF inv w nats(1) nats(4)] nats(5)
  have p: "0 < p" "p \<le> sd" "w * sd + p \<le> f" by auto
  from kn nats have k: "0 < k" "k \<le> n" "0 < sd" by simp_all
  have szY: "sd * n \<le> length (Y_N d ! w)" and szV: "sd * n \<le> length (V_N d ! w)"
    using sz w lens nats by (simp_all add: list_all_length nat_prod2)
  have pn: "p * n \<le> sd * n" and pk: "p * k \<le> sd * n"
    using p k by (simp_all add: mult_le_mono)
  have pnY: "p * n \<le> length (Y_N d ! w)" and pnV: "p * n \<le> length (V_N d ! w)"
    and pkV: "p * k \<le> length (V_N d ! w)"
    using pn pk szY szV by linarith+
  have lY: "length Y = n * f" using lenY nats
    by (metis nat_int nat_prod2)
  have "(w * sd + p) * n \<le> f * n" using p by (intro mult_le_mono1)
  then have inY: "w * sd * n + p * n \<le> length Y" by (simp add: lY algebra_simps)
  have copy_in: "std_copy Y (w * sd * n) (w * sd * n + p * n) (Y_N d ! w) 0 =
      Some (take (p * n) (drop (w * sd * n) Y) @ drop (p * n) (Y_N d ! w))"
    using inY pnY by (subst std_copy_Some) simp_all
  have ld: "load_wave d Y load w = Some y"
    by (simp add: load_wave_def Let_def nats nat_prod3 nat_prod3_plus copy_in y_def)
  have ly: "length y = length (Y_N d ! w)"
    using inY pnY by (simp add: y_def)
  have "(w * sd + p) * k \<le> f * k" using p by (intro mult_le_mono1)
  then have inK: "w * sd * k + p * k \<le> k * f" by (simp add: algebra_simps)
  have "(w * sd + p) * n \<le> f * n" using p by (intro mult_le_mono1)
  then have inN: "w * sd * n + p * n \<le> n * f" by (simp add: algebra_simps)
  have "sd * k \<le> sd * n" using k by simp
  then have skV: "sd * k \<le> length (V_N d ! w)" using szV by (rule order_trans)
  have g1: "load \<longrightarrow> N d * simd_inter_frame_level d \<le> int (length y)"
    using szY ly nats by (simp add: mult.commute flip: of_nat_mult)
  have g2: "store \<and> \<not> store_fast \<longrightarrow> K d * simd_inter_frame_level d \<le> int (length (V_N d ! w))"
    using skV nats by (simp add: mult.commute flip: of_nat_mult)
  have phd: "private_hard_decode d y (V_N d ! w) load store store_fast unpack = Inr (st, v)"
    by (subst private_hard_decode_ok[OF g1 g2]) (simp add: st_def v_def Let_def)
  have copyK: "length V = k * f \<Longrightarrow> std_copy v 0 (p * k) V (w * sd * k) =
      Some (take (w * sd * k) V @ take (p * k) v @ drop (w * sd * k + p * k) V)"
    using inK pkV lenv by (subst std_copy_Some) simp_all
  have copyN: "length V = n * f \<Longrightarrow> std_copy v 0 (p * n) V (w * sd * n) =
      Some (take (w * sd * n) V @ take (p * n) v @ drop (w * sd * n + p * n) V)"
    using inN pnV lenv by (subst std_copy_Some) simp_all
  have eqK: "(int k * int f = int (length V)) = (length V = k * f)"
    by (metis nat_int nat_prod2 of_nat_mult)
  have eqN: "(int n * int f = int (length V)) = (length V = n * f)"
    by (metis nat_int nat_prod2 of_nat_mult)
  have sw: "store_wave d v V store w =
     (if store then
        (if length V = k * f then
           Inr (take (w * sd * k) V @ take (p * k) v @ drop (w * sd * k + p * k) V)
         else if length V = n * f then
           Inr (take (w * sd * n) V @ take (p * n) v @ drop (w * sd * n + p * n) V)
         else Inl (runtime_error ''this should never happen, V_K is not a multiple of K or of N.''))
      else Inr V)"
    by (simp add: store_wave_def Let_def nats nat_prod3 nat_prod2 eqK eqN copyK copyN)
  show ?thesis
    unfolding hard_decode_wave_def using w lens
    by (simp add: Let_def ld phd sw d2_def)
qed


lemma hard_decode_waves_append:
  "hard_decode_waves Y load store store_fast unpack (ws @ [w]) dV =
     (case hard_decode_waves Y load store store_fast unpack ws dV of
        Inl e \<Rightarrow> Inl e
      | Inr dV' \<Rightarrow> hard_decode_wave Y load store store_fast unpack w dV')"
  by (induction ws arbitrary: dV) (auto split: sum.splits)

lemma n_frames_per_wave_same: "same_setup d d' \<Longrightarrow> n_frames_per_wave d' w = n_frames_per_wave d w"
  by (simp add: same_setup_def n_frames_per_wave_def)

lemma same_setup_refl: "same_setup d d"
  by (simp add: same_setup_def)

lemma same_setup_trans: "same_setup d d' \<Longrightarrow> same_setup d' d'' \<Longrightarrow> same_setup d d''"
  by (simp add: same_setup_def)

lemma stores_keep_length_same: "same_setup d d' \<Longrightarrow> stores_keep_length d \<Longrightarrow> stores_keep_length d'"
  by (simp add: same_setup_def stores_keep_length_def)

lemma hard_decode_wave_step:
  fixes d :: "('b, 'r, 'st) Decoder_i"
  assumes inv: "decoder_inv d" and keep: "stores_keep_length d" and w: "w < nat (n_dec_waves d)"
    and lenY: "int (length Y) = N d * n_frames d"
  obtains d2 where "decoder_inv d2" "same_setup d d2"
    "\<And>w'. w' \<noteq> w \<Longrightarrow> V_N d2 ! w' = V_N d ! w'"
    "hard_decode_wave Y load store store_fast unpack w (d, V) =
     (if store then
        (if length V = nat (K d) * nat (n_frames d) then
           Inr (d2, take (w * nat (simd_inter_frame_level d) * nat (K d)) V @
                    take (nat (n_frames_per_wave d w) * nat (K d)) (V_N d2 ! w) @
                    drop (w * nat (simd_inter_frame_level d) * nat (K d) +
                          nat (n_frames_per_wave d w) * nat (K d)) V)
         else if length V = nat (N d) * nat (n_frames d) then
           Inr (d2, take (w * nat (simd_inter_frame_level d) * nat (N d)) V @
                    take (nat (n_frames_per_wave d w) * nat (N d)) (V_N d2 ! w) @
                    drop (w * nat (simd_inter_frame_level d) * nat (N d) +
                          nat (n_frames_per_wave d w) * nat (N d)) V)
         else Inl (runtime_error ''this should never happen, V_K is not a multiple of K or of N.''))
      else Inr (d2, V))"
proof -
  obtain sd n k f where nats: "simd_inter_frame_level d = int sd" "N d = int n" "K d = int k"
    "n_frames d = int f" using decoder_inv_nat[OF inv] by metis
  obtain p where p: "n_frames_per_wave d w = int p" "0 < p" "p \<le> sd" "w * sd + p \<le> f"
    using wave_frames_nat[OF inv w nats(1) nats(4)] by metis
  define y where "y = (if load then take (p * n) (drop (w * sd * n) Y) @ drop (p * n) (Y_N d ! w) else Y_N d ! w)"
  define st where "st = hard_decode_v d (if load then load_v d y (impl d) else impl d)"
  define v where "v = (if store then
            (if store_fast then
               (if unpack then unpack_v d st (store_fast_v d st (V_N d ! w)) else store_fast_v d st (V_N d ! w))
             else store_v d st (V_N d ! w))
          else V_N d ! w)"
  define d2 where "d2 = d\<lparr> Y_N := (Y_N d)[w := y], impl := st, V_N := (V_N d)[w := v] \<rparr>"
  have lenv: "length v = length (V_N d ! w)"
    using keep by (simp add: v_def stores_keep_length_def)
  from inv have lens: "length (Y_N d) = nat (n_dec_waves d)" "length (V_N d) = nat (n_dec_waves d)"
    and sz: "list_all (\<lambda>y. nat (simd_inter_frame_level d * N d) \<le> length y) (Y_N d)"
      "list_all (\<lambda>v. nat (simd_inter_frame_level d * N d) \<le> length v) (V_N d)"
    unfolding decoder_inv_def by blast+
  have szY: "sd * n \<le> length (Y_N d ! w)"
    using sz w lens nats by (simp add: list_all_length nat_prod2)
  have "(w * sd + p) * n \<le> f * n" using p by (intro mult_le_mono1)
  moreover have "length Y = n * f" using lenY nats by (metis nat_int nat_prod2)
  ultimately have inY: "w * sd * n + p * n \<le> length Y" by (simp add: algebra_simps)
  have "p * n \<le> sd * n" using p by simp
  then have pnY: "p * n \<le> length (Y_N d ! w)" using szY by linarith
  have ly: "length y = length (Y_N d ! w)"
    using inY pnY by (simp add: y_def)
  have vw: "V_N d2 ! w = v" using w lens by (simp add: d2_def)
  have 1: "decoder_inv d2"
    using inv w lens ly lenv unfolding decoder_inv_def d2_def
    by (auto simp: list_all_length nth_list_update)
  have 2: "same_setup d d2" by (simp add: same_setup_def d2_def)
  have 3: "\<And>w'. w' \<noteq> w \<Longrightarrow> V_N d2 ! w' = V_N d ! w'" by (simp add: d2_def)
  have 4: "hard_decode_wave Y load store store_fast unpack w (d, V) =
     (if store then
        (if length V = nat (K d) * nat (n_frames d) then
           Inr (d2, take (w * nat (simd_inter_frame_level d) * nat (K d)) V @
                    take (nat (n_frames_per_wave d w) * nat (K d)) (V_N d2 ! w) @
                    drop (w * nat (simd_inter_frame_level d) * nat (K d) +
                          nat (n_frames_per_wave d w) * nat (K d)) V)
         else if length V = nat (N d) * nat (n_frames d) then
           Inr (d2, take (w * nat (simd_inter_frame_level d) * nat (N d)) V @
                    take (nat (n_frames_per_wave d w) * nat (N d)) (V_N d2 ! w) @
                    drop (w * nat (simd_inter_frame_level d) * nat (N d) +
                          nat (n_frames_per_wave d w) * nat (N d)) V)
         else Inl (runtime_error ''this should never happen, V_K is not a multiple of K or of N.''))
      else Inr (d2, V))"
    unfolding vw
    using hard_decode_wave_char[OF inv w lenY nats p(1), where load = load and store = store
          and store_fast = store_fast and unpack = unpack and V = V,
        folded y_def, folded st_def, folded v_def, folded d2_def, OF lenv]
    by (simp add: nats p(1))
  from 1 2 3 4 show thesis by (rule that)
qed


lemma waves_cover:
  assumes "decoder_inv d"
  shows "n_frames d \<le> n_dec_waves d * simd_inter_frame_level d"
proof -
  let ?sd = "simd_inter_frame_level d" and ?n = "n_frames d"
  from assms have sd: "0 < ?sd" and wv0: "n_dec_waves d = (?n + ?sd - 1) div ?sd"
    unfolding decoder_inv_def by blast+
  have wv: "n_dec_waves d = ?n div ?sd + (if ?n mod ?sd = 0 then 0 else 1)"
    unfolding wv0 using sd by (rule ceil_div_eq)
  have m: "?n mod ?sd < ?sd" using sd by simp
  have dm: "?n div ?sd * ?sd + ?n mod ?sd = ?n" by (rule div_mult_mod_eq)
  show ?thesis
  proof (cases "?n mod ?sd = 0")
    case True
    with wv dm show ?thesis by simp
  next
    case False
    with wv have "n_dec_waves d * ?sd = ?n div ?sd * ?sd + ?sd" by (simp add: algebra_simps)
    with dm m show ?thesis by linarith
  qed
qed

lemma waves_pos: "decoder_inv d \<Longrightarrow> 0 < n_dec_waves d"
proof -
  assume inv: "decoder_inv d"
  then have "0 < n_frames d" "0 < simd_inter_frame_level d" unfolding decoder_inv_def by blast+
  show ?thesis
  proof (rule ccontr)
    assume "\<not> 0 < n_dec_waves d"
    then have "n_dec_waves d * simd_inter_frame_level d \<le> 0"
      using \<open>0 < simd_inter_frame_level d\<close> by (simp add: mult_le_0_iff)
    with waves_cover[OF inv] \<open>0 < n_frames d\<close> show False by linarith
  qed
qed


lemma hard_decode_waves_prefix:
  fixes d :: "('b, 'r, 'st) Decoder_i"
  assumes inv: "decoder_inv d" and keep: "stores_keep_length d"
    and lenY: "int (length Y) = N d * n_frames d"
    and c: "c = (if length V = nat (K d) * nat (n_frames d) then nat (K d) else nat (N d))"
    and lenV: "length V = c * nat (n_frames d)"
    and m: "m \<le> nat (n_dec_waves d)"
  shows "\<exists>d' V'. hard_decode_waves Y load True store_fast unpack [0..<m] (d, V) = Inr (d', V') \<and>
           decoder_inv d' \<and> same_setup d d' \<and> length V' = length V \<and>
           take (min (m * nat (simd_inter_frame_level d)) (nat (n_frames d)) * c) V' =
             concat (map (\<lambda>w. take (nat (n_frames_per_wave d w) * c) (V_N d' ! w)) [0..<m]) \<and>
           drop (min (m * nat (simd_inter_frame_level d)) (nat (n_frames d)) * c) V' =
             drop (min (m * nat (simd_inter_frame_level d)) (nat (n_frames d)) * c) V"
  using m
proof (induction m)
  case 0
  show ?case using inv by (simp add: same_setup_refl)
next
  case (Suc m)
  let ?sd = "nat (simd_inter_frame_level d)" and ?f = "nat (n_frames d)"
  from Suc obtain d' V' where
    run: "hard_decode_waves Y load True store_fast unpack [0..<m] (d, V) = Inr (d', V')"
    and inv': "decoder_inv d'" and same: "same_setup d d'" and len': "length V' = length V"
    and tk: "take (min (m * ?sd) ?f * c) V' =
             concat (map (\<lambda>w. take (nat (n_frames_per_wave d w) * c) (V_N d' ! w)) [0..<m])"
    and dr: "drop (min (m * ?sd) ?f * c) V' = drop (min (m * ?sd) ?f * c) V"
    by auto
  from same have eqs: "K d' = K d" "N d' = N d" "n_frames d' = n_frames d"
    "simd_inter_frame_level d' = simd_inter_frame_level d" "n_dec_waves d' = n_dec_waves d"
    by (simp_all add: same_setup_def)
  have keep': "stores_keep_length d'" using same keep by (rule stores_keep_length_same)
  have w': "m < nat (n_dec_waves d')" using Suc.prems eqs by simp
  have lenY': "int (length Y) = N d' * n_frames d'" using lenY eqs by simp
  obtain sd n k f where nats: "simd_inter_frame_level d = int sd" "N d = int n" "K d = int k"
    "n_frames d = int f" "0 < k" "k \<le> n" "0 < f" using decoder_inv_nat[OF inv] by metis
  have w: "m < nat (n_dec_waves d)" using Suc.prems by simp
  obtain p where p: "n_frames_per_wave d m = int p" "0 < p" "p \<le> sd" "m * sd + p \<le> f"
    "p = sd \<or> m * sd + p = f"
    using wave_frames_nat[OF inv w nats(1) nats(4)] by metis
  have npw': "n_frames_per_wave d' m = n_frames_per_wave d m"
    using same by (rule n_frames_per_wave_same)
  have ck: "c = k \<or> c = n" and cn: "c \<le> n" using c nats by auto
  have lV': "length V' = c * f" using len' lenV nats by simp
  obtain d2 where d2: "decoder_inv d2" "same_setup d' d2"
    "\<And>w'. w' \<noteq> m \<Longrightarrow> V_N d2 ! w' = V_N d' ! w'"
    and step: "hard_decode_wave Y load True store_fast unpack m (d', V') =
        Inr (d2, take (m * sd * c) V' @ take (p * c) (V_N d2 ! m) @ drop (m * sd * c + p * c) V')"
  proof -
    obtain d2 where a: "decoder_inv d2" "same_setup d' d2"
      "\<And>w'. w' \<noteq> m \<Longrightarrow> V_N d2 ! w' = V_N d' ! w'"
      and b: "hard_decode_wave Y load True store_fast unpack m (d', V') =
       (if True then
        (if length V' = nat (K d') * nat (n_frames d') then
           Inr (d2, take (m * nat (simd_inter_frame_level d') * nat (K d')) V' @
                    take (nat (n_frames_per_wave d' m) * nat (K d')) (V_N d2 ! m) @
                    drop (m * nat (simd_inter_frame_level d') * nat (K d') +
                          nat (n_frames_per_wave d' m) * nat (K d')) V')
         else if length V' = nat (N d') * nat (n_frames d') then
           Inr (d2, take (m * nat (simd_inter_frame_level d') * nat (N d')) V' @
                    take (nat (n_frames_per_wave d' m) * nat (N d')) (V_N d2 ! m) @
                    drop (m * nat (simd_inter_frame_level d') * nat (N d') +
                          nat (n_frames_per_wave d' m) * nat (N d')) V')
         else Inl (runtime_error ''this should never happen, V_K is not a multiple of K or of N.''))
      else Inr (d2, V'))"
      using hard_decode_wave_step[OF inv' keep' w' lenY', where load = load and store = True
          and store_fast = store_fast and unpack = unpack and V = V']
      by metis
    have "hard_decode_wave Y load True store_fast unpack m (d', V') =
        Inr (d2, take (m * sd * c) V' @ take (p * c) (V_N d2 ! m) @ drop (m * sd * c + p * c) V')"
    proof (cases "length V' = k * f")
      case True
      then have "c = k" using c len' nats by simp
      with True show ?thesis unfolding b by (simp add: eqs npw' nats p(1))
    next
      case False
      then have "c = n" using c len' nats by simp
      with False lV' nats(7) show ?thesis unfolding b by (simp add: eqs npw' nats(1-4) p(1))
    qed
    with a show thesis by (rule that)
  qed
  let ?V'' = "take (m * sd * c) V' @ take (p * c) (V_N d2 ! m) @ drop (m * sd * c + p * c) V'"
  have run': "hard_decode_waves Y load True store_fast unpack [0..<Suc m] (d, V) = Inr (d2, ?V'')"
    by (simp add: hard_decode_waves_append run step)
  have same2: "same_setup d d2" using same d2(2) by (rule same_setup_trans)
  have ms: "m * sd < f" using p by linarith
  have min1: "min (m * sd) f = m * sd" using ms by simp
  have min2: "min (Suc m * sd) f = m * sd + p" using p by auto
  have "(m * sd + p) * c \<le> f * c" using p(4) by (intro mult_le_mono1)
  then have in1: "m * sd * c + p * c \<le> length V'" by (simp add: lV' algebra_simps)
  from d2(1) have "list_all (\<lambda>v. nat (simd_inter_frame_level d2 * N d2) \<le> length v) (V_N d2)"
    and "length (V_N d2) = nat (n_dec_waves d2)" unfolding decoder_inv_def by blast+
  moreover from same2 have "simd_inter_frame_level d2 = int sd" "N d2 = int n"
    "n_dec_waves d2 = n_dec_waves d" using nats by (simp_all add: same_setup_def)
  ultimately have "sd * n \<le> length (V_N d2 ! m)" using w
    by (simp add: list_all_length nat_prod2)
  moreover have "p * c \<le> sd * n" using p(3) cn by (rule mult_le_mono)
  ultimately have in2: "p * c \<le> length (V_N d2 ! m)" by linarith
  have lenV'': "length ?V'' = length V" using in1 in2 len' by simp
  have tk1: "take (m * sd * c) V' =
      concat (map (\<lambda>w. take (nat (n_frames_per_wave d w) * c) (V_N d2 ! w)) [0..<m])"
  proof -
    have "map (\<lambda>w. take (nat (n_frames_per_wave d w) * c) (V_N d' ! w)) [0..<m] =
          map (\<lambda>w. take (nat (n_frames_per_wave d w) * c) (V_N d2 ! w)) [0..<m]"
      by (rule map_cong) (simp_all add: d2(3))
    with tk show ?thesis by (simp add: min1 nats)
  qed
  have "take ((m * sd + p) * c) ?V'' = take (m * sd * c) V' @ take (p * c) (V_N d2 ! m)"
    using in1 in2 by (simp add: algebra_simps)
  then have tk2: "take (min (Suc m * sd) f * c) ?V'' =
      concat (map (\<lambda>w. take (nat (n_frames_per_wave d w) * c) (V_N d2 ! w)) [0..<Suc m])"
    unfolding min2 by (simp add: tk1 p(1))
  have "drop ((m * sd + p) * c) ?V'' = drop ((m * sd + p) * c) V'"
    using in1 in2 by (simp add: algebra_simps)
  also have "\<dots> = drop (p * c) (drop (m * sd * c) V')" by (simp add: algebra_simps)
  also have "\<dots> = drop (p * c) (drop (m * sd * c) V)" using dr by (simp add: min1 nats)
  also have "\<dots> = drop ((m * sd + p) * c) V" by (simp add: algebra_simps)
  finally have dr2: "drop (min (Suc m * sd) f * c) ?V'' = drop (min (Suc m * sd) f * c) V"
    unfolding min2 .
  from run' d2(1) same2 lenV'' tk2 dr2 show ?case
    by (simp add: nats)
qed

lemma hard_decode_waves_nostore:
  fixes d :: "('b, 'r, 'st) Decoder_i"
  assumes inv: "decoder_inv d" and keep: "stores_keep_length d"
    and lenY: "int (length Y) = N d * n_frames d"
    and m: "m \<le> nat (n_dec_waves d)"
  shows "\<exists>d'. hard_decode_waves Y load False store_fast unpack [0..<m] (d, V) = Inr (d', V) \<and>
           decoder_inv d' \<and> same_setup d d'"
  using m
proof (induction m)
  case 0
  show ?case using inv by (simp add: same_setup_refl)
next
  case (Suc m)
  then obtain d' where
    run: "hard_decode_waves Y load False store_fast unpack [0..<m] (d, V) = Inr (d', V)"
    and inv': "decoder_inv d'" and same: "same_setup d d'"
    by auto
  from same have eqs: "N d' = N d" "n_frames d' = n_frames d" "n_dec_waves d' = n_dec_waves d"
    by (simp_all add: same_setup_def)
  have keep': "stores_keep_length d'" using same keep by (rule stores_keep_length_same)
  have w': "m < nat (n_dec_waves d')" using Suc.prems eqs by simp
  have lenY': "int (length Y) = N d' * n_frames d'" using lenY eqs by simp
  obtain d2 where d2: "decoder_inv d2" "same_setup d' d2"
    and step: "hard_decode_wave Y load False store_fast unpack m (d', V) = Inr (d2, V)"
    using hard_decode_wave_step[OF inv' keep' w' lenY', where load = load and store = False
          and store_fast = store_fast and unpack = unpack and V = V]
    by (metis (full_types))
  have "hard_decode_waves Y load False store_fast unpack [0..<Suc m] (d, V) = Inr (d2, V)"
    by (simp add: hard_decode_waves_append run step)
  moreover have "same_setup d d2" using same d2(2) by (rule same_setup_trans)
  ultimately show ?case using d2(1) by blast
qed

lemma hard_decode_general_path:
  assumes "int (length Y) = N d * n_frames d" "int (length V) \<le> N d * n_frames d"
    "\<not> (n_dec_waves d = 1 \<and> n_inter_frame_rest d = 0)"
  shows "hard_decode d Y V load store store_fast unpack =
         hard_decode_waves Y load store store_fast unpack [0..<nat (n_dec_waves d)] (d, V)"
  using assms by (auto simp: hard_decode_def)

lemma fast_path_frames:
  assumes inv: "decoder_inv d" and fast: "n_dec_waves d = 1" "n_inter_frame_rest d = 0"
  shows "n_frames d = simd_inter_frame_level d"
proof -
  let ?sd = "simd_inter_frame_level d" and ?n = "n_frames d"
  from inv have sd: "0 < ?sd" and n: "0 < ?n"
    and wv0: "n_dec_waves d = (?n + ?sd - 1) div ?sd"
    and rs: "n_inter_frame_rest d = ?n mod ?sd"
    unfolding decoder_inv_def by blast+
  have wv: "n_dec_waves d = ?n div ?sd + (if ?n mod ?sd = 0 then 0 else 1)"
    unfolding wv0 using sd by (rule ceil_div_eq)
  from fast rs wv have "?n mod ?sd = 0" "?n div ?sd = 1" by simp_all
  with div_mult_mod_eq[of ?n ?sd] show ?thesis by simp
qed

text \<open>
  On the fast path the guard of \<^verbatim>\<open>load\<close> passes, since the input holds
  \<open>N * simd_inter_frame_level\<close> LLRs, and only the guard of \<^verbatim>\<open>store\<close> can throw.
\<close>

lemma hard_decode_fast_path_length_error:
  assumes inv: "decoder_inv d" and fast: "n_dec_waves d = 1" "n_inter_frame_rest d = 0"
    and lenY: "int (length Y) = N d * n_frames d" and lenV: "int (length V) \<le> N d * n_frames d"
  shows "(\<exists>msg. hard_decode d Y V load store store_fast unpack = Inl (length_error msg)) \<longleftrightarrow>
         (store \<and> \<not> store_fast \<and> int (length V) < K d * simd_inter_frame_level d)"
proof -
  have fr: "n_frames d = simd_inter_frame_level d" using inv fast by (rule fast_path_frames)
  have ld: "\<not> N d * simd_inter_frame_level d > int (length Y)" using lenY fr by simp
  have hd: "hard_decode d Y V load store store_fast unpack =
      (case private_hard_decode d Y V load store store_fast unpack of
         Inl e \<Rightarrow> Inl e
       | Inr (st, V') \<Rightarrow> Inr (d\<lparr> impl := st \<rparr>, V'))"
    using fast lenY lenV by (simp add: hard_decode_def)
  show ?thesis
    unfolding hd private_hard_decode_def using ld by (auto simp: Let_def)
qed

text \<open>
  Claim C6, as amended. For a decoder as its constructor leaves it, with stores that keep
  the length of the vector: \<^verbatim>\<open>hard_decode\<close> throws a \<^verbatim>\<open>length_error\<close> whenever
  \<open>length Y \<noteq> N * n_frames\<close> or \<open>length V > N * n_frames\<close>; on the general path
  (not exactly one wave without remainder) it throws a \<^verbatim>\<open>length_error\<close> in no other
  case; and there, with \<open>store\<close> enabled, an output of \<open>K * n_frames\<close> elements
  receives from each wave the first \<open>n_frames_per_wave * K\<close> elements of the wave's
  decoded staging buffer, wave after wave; else an output of \<open>N * n_frames\<close> elements
  receives the first \<open>n_frames_per_wave * N\<close> elements of each; and any other length
  ends in the \<^verbatim>\<open>runtime_error\<close> of the inconsistent shape. On the fast path (exactly
  one wave without remainder), past the two entry checks, it throws a \<^verbatim>\<open>length_error\<close>
  exactly when \<open>store\<close> is enabled without \<open>store_fast\<close> and
  \<open>length V < K * simd_inter_frame_level\<close>.
\<close>

theorem hard_decode_length_and_shape:
  fixes d :: "('b, 'r, 'st) Decoder_i"
  assumes inv: "decoder_inv d" and keep: "stores_keep_length d"
  shows
   "(int (length Y) \<noteq> N d * n_frames d \<or> int (length V) > N d * n_frames d \<longrightarrow>
       (\<exists>msg. hard_decode d Y V load store store_fast unpack = Inl (length_error msg))) \<and>
    (int (length Y) = N d * n_frames d \<and> int (length V) \<le> N d * n_frames d \<and>
     \<not> (n_dec_waves d = 1 \<and> n_inter_frame_rest d = 0) \<longrightarrow>
       (\<forall>msg. hard_decode d Y V load store store_fast unpack \<noteq> Inl (length_error msg)) \<and>
       (int (length V) = K d * n_frames d \<longrightarrow>
          (\<exists>d' V'. hard_decode d Y V load True store_fast unpack = Inr (d', V') \<and>
             same_setup d d' \<and>
             V' = concat (map (\<lambda>w. take (nat (n_frames_per_wave d w * K d)) (V_N d' ! w))
                           [0..<nat (n_dec_waves d)]))) \<and>
       (int (length V) \<noteq> K d * n_frames d \<and> int (length V) = N d * n_frames d \<longrightarrow>
          (\<exists>d' V'. hard_decode d Y V load True store_fast unpack = Inr (d', V') \<and>
             same_setup d d' \<and>
             V' = concat (map (\<lambda>w. take (nat (n_frames_per_wave d w * N d)) (V_N d' ! w))
                           [0..<nat (n_dec_waves d)]))) \<and>
       (int (length V) \<noteq> K d * n_frames d \<and> int (length V) \<noteq> N d * n_frames d \<longrightarrow>
          hard_decode d Y V load True store_fast unpack =
            Inl (runtime_error
              ''this should never happen, V_K is not a multiple of K or of N.''))) \<and>
    (int (length Y) = N d * n_frames d \<and> int (length V) \<le> N d * n_frames d \<and>
     n_dec_waves d = 1 \<and> n_inter_frame_rest d = 0 \<longrightarrow>
       ((\<exists>msg. hard_decode d Y V load store store_fast unpack = Inl (length_error msg)) \<longleftrightarrow>
        (store \<and> \<not> store_fast \<and> int (length V) < K d * simd_inter_frame_level d)))"
proof (intro conjI impI)
  assume "int (length Y) \<noteq> N d * n_frames d \<or> int (length V) > N d * n_frames d"
  then show "\<exists>msg. hard_decode d Y V load store store_fast unpack = Inl (length_error msg)"
    by (auto simp: hard_decode_def)
next
  assume a: "int (length Y) = N d * n_frames d \<and> int (length V) \<le> N d * n_frames d \<and>
     \<not> (n_dec_waves d = 1 \<and> n_inter_frame_rest d = 0)"
  then have lenY: "int (length Y) = N d * n_frames d" by blast
  obtain sd n k f where nats: "simd_inter_frame_level d = int sd" "N d = int n" "K d = int k"
    "n_frames d = int f" "0 < sd" "0 < k" "k \<le> n" "0 < f" using decoder_inv_nat[OF inv] by metis
  have gen: "\<And>st. hard_decode d Y V load st store_fast unpack =
         hard_decode_waves Y load st store_fast unpack [0..<nat (n_dec_waves d)] (d, V)"
    using a by (intro hard_decode_general_path) auto
  have wpos: "0 < nat (n_dec_waves d)" using waves_pos[OF inv] by simp
  have lV: "length V \<le> n * f" using a nats by (metis nat_int nat_prod2 nat_mono)
  have cov: "f \<le> nat (n_dec_waves d) * sd"
  proof -
    have "int f \<le> n_dec_waves d * int sd" using waves_cover[OF inv] nats by simp
    also have "\<dots> = int (nat (n_dec_waves d) * sd)" using wpos by simp
    finally show ?thesis by (simp only: of_nat_le_iff)
  qed
  then have mn: "min (nat (n_dec_waves d) * sd) f = f" by simp
  have step0: "hard_decode_wave Y load True store_fast unpack 0 (d, V) =
        Inl (runtime_error ''this should never happen, V_K is not a multiple of K or of N.'')"
    if "length V \<noteq> k * f" "length V \<noteq> n * f"
    using hard_decode_wave_step[OF inv keep wpos lenY, where load = load and store = True
          and store_fast = store_fast and unpack = unpack and V = V] that nats
    by (metis (full_types) nat_int)
  have shape: "hard_decode d Y V load True store_fast unpack =
            Inl (runtime_error ''this should never happen, V_K is not a multiple of K or of N.'')"
    if "length V \<noteq> k * f" "length V \<noteq> n * f"
  proof -
    have "[0..<nat (n_dec_waves d)] = 0 # [1..<nat (n_dec_waves d)]"
      using wpos by (simp add: upt_conv_Cons)
    then show ?thesis using step0[OF that] by (simp add: gen)
  qed
  have shaped: "\<exists>d' V'. hard_decode d Y V load True store_fast unpack = Inr (d', V') \<and>
             same_setup d d' \<and>
             V' = concat (map (\<lambda>w. take (nat (n_frames_per_wave d w) * c) (V_N d' ! w))
                           [0..<nat (n_dec_waves d)])"
    if c: "c = (if length V = nat (K d) * nat (n_frames d) then nat (K d) else nat (N d))"
      and lenV: "length V = c * nat (n_frames d)" for c
  proof -
    obtain d' V' where r: "hard_decode_waves Y load True store_fast unpack [0..<nat (n_dec_waves d)] (d, V) =
        Inr (d', V')" "same_setup d d'" "length V' = length V"
      "take (min (nat (n_dec_waves d) * nat (simd_inter_frame_level d)) (nat (n_frames d)) * c) V' =
             concat (map (\<lambda>w. take (nat (n_frames_per_wave d w) * c) (V_N d' ! w)) [0..<nat (n_dec_waves d)])"
      using hard_decode_waves_prefix[OF inv keep lenY c lenV order_refl, of load store_fast unpack]
      by blast
    have "take (f * c) V' = V'" using r(3) lenV nats by (simp add: mult.commute)
    with r(4) mn nats have "V' = concat (map (\<lambda>w. take (nat (n_frames_per_wave d w) * c) (V_N d' ! w))
         [0..<nat (n_dec_waves d)])" by simp
    with r(1,2) show ?thesis by (simp add: gen)
  qed
  have eqK: "(int (length V) = K d * n_frames d) = (length V = k * f)"
    using nats by (metis nat_int nat_prod2 of_nat_mult)
  have eqN: "(int (length V) = N d * n_frames d) = (length V = n * f)"
    using nats by (metis nat_int nat_prod2 of_nat_mult)
  have npw0: "\<And>w. 0 \<le> n_frames_per_wave d w"
    using inv by (simp add: n_frames_per_wave_def decoder_inv_def)
  have npwK: "\<And>w. nat (n_frames_per_wave d w * K d) = nat (n_frames_per_wave d w) * k"
    using nats npw0 by (simp add: nat_mult_distrib)
  have npwN: "\<And>w. nat (n_frames_per_wave d w * N d) = nat (n_frames_per_wave d w) * n"
    using nats npw0 by (simp add: nat_mult_distrib)
  show caseK: "\<exists>d' V'. hard_decode d Y V load True store_fast unpack = Inr (d', V') \<and>
             same_setup d d' \<and>
             V' = concat (map (\<lambda>w. take (nat (n_frames_per_wave d w * K d)) (V_N d' ! w))
                           [0..<nat (n_dec_waves d)])"
    if "int (length V) = K d * n_frames d"
    using shaped[of k] that nats unfolding eqK npwK by simp
  show caseN: "\<exists>d' V'. hard_decode d Y V load True store_fast unpack = Inr (d', V') \<and>
             same_setup d d' \<and>
             V' = concat (map (\<lambda>w. take (nat (n_frames_per_wave d w * N d)) (V_N d' ! w))
                           [0..<nat (n_dec_waves d)])"
    if "int (length V) \<noteq> K d * n_frames d \<and> int (length V) = N d * n_frames d"
    using shaped[of n] that nats unfolding eqK eqN npwN by simp
  show caseE: "hard_decode d Y V load True store_fast unpack =
            Inl (runtime_error ''this should never happen, V_K is not a multiple of K or of N.'')"
    if "int (length V) \<noteq> K d * n_frames d \<and> int (length V) \<noteq> N d * n_frames d"
    using shape that unfolding eqK eqN by simp
  show "\<forall>msg. hard_decode d Y V load store store_fast unpack \<noteq> Inl (length_error msg)"
  proof (cases store)
    case False
    then show ?thesis
      using hard_decode_waves_nostore[OF inv keep lenY order_refl, of load store_fast unpack V]
      by (auto simp: gen)
  next
    case True
    consider "int (length V) = K d * n_frames d"
      | "int (length V) \<noteq> K d * n_frames d \<and> int (length V) = N d * n_frames d"
      | "int (length V) \<noteq> K d * n_frames d \<and> int (length V) \<noteq> N d * n_frames d" by blast
    then show ?thesis
    proof cases
      case 1 from caseK[OF 1] True show ?thesis by auto
    next
      case 2 from caseN[OF 2] True show ?thesis by auto
    next
      case 3 from caseE[OF 3] True show ?thesis by simp
    qed
  qed
next
  assume "int (length Y) = N d * n_frames d \<and> int (length V) \<le> N d * n_frames d \<and>
     n_dec_waves d = 1 \<and> n_inter_frame_rest d = 0"
  then show "(\<exists>msg. hard_decode d Y V load store store_fast unpack = Inl (length_error msg)) \<longleftrightarrow>
        (store \<and> \<not> store_fast \<and> int (length V) < K d * simd_inter_frame_level d)"
    using inv by (intro hard_decode_fast_path_length_error) simp_all
qed

lemma length_hard_bits: "length (hard_bits k n sd y) = sd * k"
  by (simp add: hard_bits_def length_concat comp_def sum_list_triv)

lemma length_hard_store: "length (hard_store k n sd st V) = length V"
  by (simp add: hard_store_def length_hard_bits)

lemma hard_decoder_inv:
  "0 < k \<Longrightarrow> k \<le> n \<Longrightarrow> 0 < sd \<Longrightarrow> 0 < f \<Longrightarrow> decoder_inv (hard_decoder k n f sd)"
  by (simp add: decoder_inv_def hard_decoder_def list_all_length)

lemma hard_decoder_keep: "stores_keep_length (hard_decoder k n f sd)"
  by (simp add: stores_keep_length_def hard_decoder_def length_hard_store)

lemma hard_decoder_fields:
  "K (hard_decoder k n f sd) = int k" "N (hard_decoder k n f sd) = int n"
  "n_frames (hard_decoder k n f sd) = int f" "simd_inter_frame_level (hard_decoder k n f sd) = int sd"
  "n_dec_waves (hard_decoder k n f sd) = (int f + int sd - 1) div int sd"
  "n_inter_frame_rest (hard_decoder k n f sd) = int f mod int sd"
  by (simp_all add: hard_decoder_def)

text \<open>
  Three frames of two LLRs in waves of two: a short input, the two accepted output
  shapes and an output that matches neither. Then two frames in one wave: an output
  shorter than \<open>K * simd_inter_frame_level\<close> and one that is not.
\<close>

theorem hard_decode_length_and_shape_witness:
  "decoder_inv (hard_decoder 1 2 3 2) \<and> stores_keep_length (hard_decoder 1 2 3 2) \<and>
   (\<exists>msg. hard_decode (hard_decoder 1 2 3 2) [1, - 1, - 2, 3, - 4] [9, 9, 9] True True False False =
      Inl (length_error msg)) \<and>
   (\<exists>d' V'. hard_decode (hard_decoder 1 2 3 2) [1, - 1, - 2, 3, - 4, 5] [9, 9, 9] True True False False =
      Inr (d', V') \<and> same_setup (hard_decoder 1 2 3 2) d' \<and>
      V' = concat (map (\<lambda>w. take (nat (n_frames_per_wave (hard_decoder 1 2 3 2) w *
                                       K (hard_decoder 1 2 3 2))) (V_N d' ! w))
                    [0..<nat (n_dec_waves (hard_decoder 1 2 3 2))])) \<and>
   (\<exists>d' V'. hard_decode (hard_decoder 1 2 3 2) [1, - 1, - 2, 3, - 4, 5] [9, 9, 9, 9, 9, 9]
      True True False False = Inr (d', V') \<and> same_setup (hard_decoder 1 2 3 2) d' \<and>
      V' = concat (map (\<lambda>w. take (nat (n_frames_per_wave (hard_decoder 1 2 3 2) w *
                                       N (hard_decoder 1 2 3 2))) (V_N d' ! w))
                    [0..<nat (n_dec_waves (hard_decoder 1 2 3 2))])) \<and>
   hard_decode (hard_decoder 1 2 3 2) [1, - 1, - 2, 3, - 4, 5] [9, 9, 9, 9] True True False False =
      Inl (runtime_error ''this should never happen, V_K is not a multiple of K or of N.'') \<and>
   decoder_inv (hard_decoder 1 2 2 2) \<and>
   n_dec_waves (hard_decoder 1 2 2 2) = 1 \<and> n_inter_frame_rest (hard_decoder 1 2 2 2) = 0 \<and>
   (\<exists>msg. hard_decode (hard_decoder 1 2 2 2) [1, - 1, - 2, 3] [9] True True False False =
      Inl (length_error msg)) \<and>
   (\<nexists>msg. hard_decode (hard_decoder 1 2 2 2) [1, - 1, - 2, 3] [9, 9] True True False False =
      Inl (length_error msg))"
proof -
  let ?d = "hard_decoder 1 2 3 2"
  let ?Y = "[1, - 1, - 2, 3, - 4, 5] :: int list"
  have inv: "decoder_inv ?d" by (rule hard_decoder_inv) simp_all
  have keep: "stores_keep_length ?d" by (rule hard_decoder_keep)
  have gen: "\<not> (n_dec_waves ?d = 1 \<and> n_inter_frame_rest ?d = 0)"
    by (simp add: hard_decoder_fields)
  have h1: "int (length [1, - 1, - 2, 3, - 4 :: int]) \<noteq> N ?d * n_frames ?d \<or>
            int (length [9, 9, 9 :: int]) > N ?d * n_frames ?d"
    by (simp add: hard_decoder_fields)
  have hY: "int (length ?Y) = N ?d * n_frames ?d" by (simp add: hard_decoder_fields)
  have h2: "int (length [9, 9, 9 :: int]) \<le> N ?d * n_frames ?d"
    "int (length [9, 9, 9 :: int]) = K ?d * n_frames ?d"
    by (simp_all add: hard_decoder_fields)
  have h3: "int (length [9, 9, 9, 9, 9, 9 :: int]) \<le> N ?d * n_frames ?d"
    "int (length [9, 9, 9, 9, 9, 9 :: int]) \<noteq> K ?d * n_frames ?d \<and>
     int (length [9, 9, 9, 9, 9, 9 :: int]) = N ?d * n_frames ?d"
    by (simp_all add: hard_decoder_fields)
  have h4: "int (length [9, 9, 9, 9 :: int]) \<le> N ?d * n_frames ?d"
    "int (length [9, 9, 9, 9 :: int]) \<noteq> K ?d * n_frames ?d \<and>
     int (length [9, 9, 9, 9 :: int]) \<noteq> N ?d * n_frames ?d"
    by (simp_all add: hard_decoder_fields)
  from hard_decode_length_and_shape [OF inv keep, of "[1, - 1, - 2, 3, - 4]" "[9, 9, 9]" True True False False] h1
  have c1: "\<exists>msg. hard_decode ?d [1, - 1, - 2, 3, - 4] [9, 9, 9] True True False False =
      Inl (length_error msg)" by blast
  from hard_decode_length_and_shape [OF inv keep, of ?Y "[9, 9, 9]" True True False False] hY h2 gen
  have c2: "\<exists>d' V'. hard_decode ?d ?Y [9, 9, 9] True True False False =
      Inr (d', V') \<and> same_setup ?d d' \<and>
      V' = concat (map (\<lambda>w. take (nat (n_frames_per_wave ?d w * K ?d)) (V_N d' ! w))
                    [0..<nat (n_dec_waves ?d)])" by blast
  from hard_decode_length_and_shape [OF inv keep, of ?Y "[9, 9, 9, 9, 9, 9]" True True False False] hY h3 gen
  have c3: "\<exists>d' V'. hard_decode ?d ?Y [9, 9, 9, 9, 9, 9] True True False False =
      Inr (d', V') \<and> same_setup ?d d' \<and>
      V' = concat (map (\<lambda>w. take (nat (n_frames_per_wave ?d w * N ?d)) (V_N d' ! w))
                    [0..<nat (n_dec_waves ?d)])" by blast
  from hard_decode_length_and_shape [OF inv keep, of ?Y "[9, 9, 9, 9]" True True False False] hY h4 gen
  have c4: "hard_decode ?d ?Y [9, 9, 9, 9] True True False False =
      Inl (runtime_error ''this should never happen, V_K is not a multiple of K or of N.'')" by blast
  let ?e = "hard_decoder 1 2 2 2"
  have inv2: "decoder_inv ?e" by (rule hard_decoder_inv) simp_all
  have keep2: "stores_keep_length ?e" by (rule hard_decoder_keep)
  have fast: "n_dec_waves ?e = 1" "n_inter_frame_rest ?e = 0" by (simp_all add: hard_decoder_fields)
  have f1: "int (length [1, - 1, - 2, 3 :: int]) = N ?e * n_frames ?e \<and>
      int (length [9 :: int]) \<le> N ?e * n_frames ?e \<and>
      n_dec_waves ?e = 1 \<and> n_inter_frame_rest ?e = 0"
    "int (length [9 :: int]) < K ?e * simd_inter_frame_level ?e"
    by (simp_all add: hard_decoder_fields)
  have f2: "int (length [1, - 1, - 2, 3 :: int]) = N ?e * n_frames ?e \<and>
      int (length [9, 9 :: int]) \<le> N ?e * n_frames ?e \<and>
      n_dec_waves ?e = 1 \<and> n_inter_frame_rest ?e = 0"
    "\<not> int (length [9, 9 :: int]) < K ?e * simd_inter_frame_level ?e"
    by (simp_all add: hard_decoder_fields)
  from hard_decode_length_and_shape [OF inv2 keep2, of "[1, - 1, - 2, 3]" "[9]" True True False False] f1
  have c5: "\<exists>msg. hard_decode ?e [1, - 1, - 2, 3] [9] True True False False =
      Inl (length_error msg)" by blast
  from hard_decode_length_and_shape [OF inv2 keep2, of "[1, - 1, - 2, 3]" "[9, 9]" True True False False] f2
  have c6: "\<nexists>msg. hard_decode ?e [1, - 1, - 2, 3] [9, 9] True True False False =
      Inl (length_error msg)" by blast
  from inv keep c1 c2 c3 c4 inv2 fast c5 c6 show ?thesis by blast
qed

lemma hard_decoder_run:
  "\<exists>d'. hard_decode (hard_decoder 1 2 3 2) [1, - 1, - 2, 3, - 4, 5] [9, 9, 9] True True False False =
      Inr (d', [0, 1, 1])"
  apply (simp add: hard_decode_def hard_decoder_fields)
  apply (simp add: upt_conv_Cons hard_decode_wave_def load_wave_def store_wave_def n_frames_per_wave_def private_hard_decode_def std_copy_def Let_def hard_decoder_def
        hard_store_def hard_bits_def numeral_eq_Suc)
  done

text \<open>
  Claim C6 as stated fails on the fast path: with one frame in one wave, an input of
  \<open>N * n_frames\<close> LLRs and an empty output vector pass both checks of
  \<^verbatim>\<open>hard_decode\<close>, and the guard of \<^verbatim>\<open>store\<close> throws a \<^verbatim>\<open>length_error\<close>.
\<close>

theorem hard_decode_fast_path_length_counterexample:
  "decoder_inv (hard_decoder 1 2 1 1) \<and>
   int (length [3, - 1 :: int]) = N (hard_decoder 1 2 1 1) * n_frames (hard_decoder 1 2 1 1) \<and>
   int (length ([] :: int list)) \<le> N (hard_decoder 1 2 1 1) * n_frames (hard_decoder 1 2 1 1) \<and>
   hard_decode (hard_decoder 1 2 1 1) [3, - 1] [] True True False False =
     Inl (length_error ''V_K.size() has to be greater than K * simd_inter_frame_level.'')"
proof -
  have "decoder_inv (hard_decoder 1 2 1 1)" by (rule hard_decoder_inv) simp_all
  moreover have "hard_decode (hard_decoder 1 2 1 1) [3, - 1] [] True True False False =
     Inl (length_error ''V_K.size() has to be greater than K * simd_inter_frame_level.'')"
    by (simp add: hard_decode_def private_hard_decode_def hard_decoder_def)
  ultimately show ?thesis by (simp add: hard_decoder_fields)
qed

text \<open>
  Claim C10. On the fast path (exactly one wave and no remainder) the number of frames
  is \<open>simd_inter_frame_level\<close>; \<^verbatim>\<open>hard_decode\<close> never throws the
  \<^verbatim>\<open>runtime_error\<close> of the inconsistent shape, whatever the flags; and with \<open>store\<close>
  enabled every output vector of at least \<open>K * simd_inter_frame_level\<close> and at most
  \<open>N * n_frames\<close> elements, so also one strictly between \<open>K * n_frames\<close> and
  \<open>N * n_frames\<close>, is accepted and is what the decoder's \<^verbatim>\<open>_store\<close> makes of it.
\<close>

theorem hard_decode_fast_path_accepts:
  fixes d :: "('b, 'r, 'st) Decoder_i"
  assumes inv: "decoder_inv d" and fast: "n_dec_waves d = 1 \<and> n_inter_frame_rest d = 0"
  shows
   "n_frames d = simd_inter_frame_level d \<and>
    (\<forall>msg. hard_decode d Y V load store store_fast unpack \<noteq> Inl (runtime_error msg)) \<and>
    (int (length Y) = N d * n_frames d \<and> K d * simd_inter_frame_level d \<le> int (length V) \<and>
     int (length V) \<le> N d * n_frames d \<longrightarrow>
       hard_decode d Y V load True False unpack =
         Inr (d\<lparr> impl := hard_decode_v d (if load then load_v d Y (impl d) else impl d) \<rparr>,
              store_v d (hard_decode_v d (if load then load_v d Y (impl d) else impl d)) V))"
proof (intro conjI allI impI)
  show fr: "n_frames d = simd_inter_frame_level d"
    using inv fast by (intro fast_path_frames) simp_all
  show "hard_decode d Y V load store store_fast unpack \<noteq> Inl (runtime_error msg)" for msg
    using fast by (auto simp: hard_decode_def private_hard_decode_def Let_def split: if_splits)
  assume a: "int (length Y) = N d * n_frames d \<and> K d * simd_inter_frame_level d \<le> int (length V) \<and>
     int (length V) \<le> N d * n_frames d"
  then have "private_hard_decode d Y V load True False unpack =
     Inr (hard_decode_v d (if load then load_v d Y (impl d) else impl d),
          store_v d (hard_decode_v d (if load then load_v d Y (impl d) else impl d)) V)"
    using fr by (subst private_hard_decode_ok) (simp_all add: Let_def)
  with a fast show "hard_decode d Y V load True False unpack =
         Inr (d\<lparr> impl := hard_decode_v d (if load then load_v d Y (impl d) else impl d) \<rparr>,
              store_v d (hard_decode_v d (if load then load_v d Y (impl d) else impl d)) V)"
    by (simp add: hard_decode_def)
qed

text \<open>
  Two frames of three LLRs in one wave with an output of four elements, between
  \<open>K * n_frames = 2\<close> and \<open>N * n_frames = 6\<close>.
\<close>

theorem hard_decode_fast_path_accepts_witness:
  "decoder_inv (hard_decoder 1 3 2 2) \<and>
   n_dec_waves (hard_decoder 1 3 2 2) = 1 \<and> n_inter_frame_rest (hard_decoder 1 3 2 2) = 0 \<and>
   K (hard_decoder 1 3 2 2) * n_frames (hard_decoder 1 3 2 2) < int (length [9, 9, 9, 9 :: int]) \<and>
   int (length [9, 9, 9, 9 :: int]) < N (hard_decoder 1 3 2 2) * n_frames (hard_decoder 1 3 2 2) \<and>
   hard_decode (hard_decoder 1 3 2 2) [1, 2, 3, - 4, 5, 6] [9, 9, 9, 9] True True False False =
     Inr ((hard_decoder 1 3 2 2)\<lparr> impl := [1, 2, 3, - 4, 5, 6] \<rparr>, [0, 1, 9, 9])"
proof -
  let ?d = "hard_decoder 1 3 2 2"
  have inv: "decoder_inv ?d" by (rule hard_decoder_inv) simp_all
  have fast: "n_dec_waves ?d = 1 \<and> n_inter_frame_rest ?d = 0"
    by (simp add: hard_decoder_fields)
  have len: "int (length [1, 2, 3, - 4, 5, 6 :: int]) = N ?d * n_frames ?d \<and>
     K ?d * simd_inter_frame_level ?d \<le> int (length [9, 9, 9, 9 :: int]) \<and>
     int (length [9, 9, 9, 9 :: int]) \<le> N ?d * n_frames ?d"
    by (simp add: hard_decoder_fields)
  have st: "store_v ?d [1, 2, 3, - 4, 5, 6] [9, 9, 9, 9] = [0, 1, 9, 9]"
    by (simp add: hard_decoder_def hard_store_def hard_bits_def numeral_eq_Suc)
  have ld: "hard_decode_v ?d (load_v ?d [1, 2, 3, - 4, 5, 6] (impl ?d)) = [1, 2, 3, - 4, 5, 6]"
    by (simp add: hard_decoder_def)
  from hard_decode_fast_path_accepts [OF inv fast, of "[1, 2, 3, - 4, 5, 6]" "[9, 9, 9, 9]" True True False False] len
  have "hard_decode ?d [1, 2, 3, - 4, 5, 6] [9, 9, 9, 9] True True False False =
     Inr (?d\<lparr> impl := [1, 2, 3, - 4, 5, 6] \<rparr>, [0, 1, 9, 9])"
    by (simp only: st ld if_True simp_thms)
  with inv fast show ?thesis by (simp add: hard_decoder_fields)
qed

lemma frame_append1: "(i + 1) * sz \<le> length xs \<Longrightarrow> frame sz i (xs @ ys) = frame sz i xs"
  by (simp add: frame_def)

lemma frame_take: "(i + 1) * sz \<le> b \<Longrightarrow> frame sz i (take b xs) = frame sz i xs"
  by (simp add: frame_def drop_take min_def)

lemma frame_append2: "length xs = a * sz \<Longrightarrow> frame sz (a + j) (xs @ ys) = frame sz j ys"
  by (simp add: frame_def algebra_simps)

lemma frame_drop: "frame sz j (drop (a * sz) xs) = frame sz (a + j) xs"
  by (simp add: frame_def algebra_simps)

lemma length_frame: "(i + 1) * sz \<le> length xs \<Longrightarrow> length (frame sz i xs) = sz"
  by (simp add: frame_def)

lemma frame_0_all: "length xs = sz \<Longrightarrow> frame sz 0 xs = xs"
  by (simp add: frame_def)

lemma lanes_independent_same:
  "same_setup d d' \<Longrightarrow> lanes_independent d dec1 \<Longrightarrow> lanes_independent d' dec1"
  by (simp add: same_setup_def lanes_independent_def)

lemma hard_decode_frames_prefix:
  fixes d :: "('b, 'r, 'st) Decoder_i"
  assumes inv: "decoder_inv d" and keep: "stores_keep_length d"
    and lanes: "lanes_independent d dec1"
    and lenY: "int (length Y) = N d * n_frames d"
    and lenV: "length V = nat (K d) * nat (n_frames d)"
    and m: "m \<le> nat (n_dec_waves d)"
  shows "\<exists>d' V'. hard_decode_waves Y True True False False [0..<m] (d, V) = Inr (d', V') \<and>
           decoder_inv d' \<and> same_setup d d' \<and> length V' = length V \<and>
           (\<forall>i < min (m * nat (simd_inter_frame_level d)) (nat (n_frames d)).
              frame (nat (K d)) i V' = dec1 (frame (nat (N d)) i Y))"
  using m
proof (induction m)
  case 0
  show ?case using inv by (simp add: same_setup_refl)
next
  case (Suc m)
  obtain sd n k f where nats: "simd_inter_frame_level d = int sd" "N d = int n" "K d = int k"
    "n_frames d = int f" "0 < sd" "0 < k" "k \<le> n" "0 < f" using decoder_inv_nat[OF inv] by metis
  from Suc obtain d' V' where
    run: "hard_decode_waves Y True True False False [0..<m] (d, V) = Inr (d', V')"
    and inv': "decoder_inv d'" and same: "same_setup d d'" and len': "length V' = length V"
    and fr: "\<forall>i < min (m * sd) f. frame k i V' = dec1 (frame n i Y)"
    using nats by auto
  from same have eqs: "K d' = K d" "N d' = N d" "n_frames d' = n_frames d"
    "simd_inter_frame_level d' = simd_inter_frame_level d" "n_dec_waves d' = n_dec_waves d"
    by (simp_all add: same_setup_def)
  have keep': "stores_keep_length d'" using same keep by (rule stores_keep_length_same)
  have lanes': "lanes_independent d' dec1" using same lanes by (rule lanes_independent_same)
  have w': "m < nat (n_dec_waves d')" using Suc.prems eqs by simp
  have w: "m < nat (n_dec_waves d)" using Suc.prems by simp
  have lenY': "int (length Y) = N d' * n_frames d'" using lenY eqs by simp
  obtain p where p: "n_frames_per_wave d m = int p" "0 < p" "p \<le> sd" "m * sd + p \<le> f"
    "p = sd \<or> m * sd + p = f"
    using wave_frames_nat[OF inv w nats(1) nats(4)] by metis
  have npw': "n_frames_per_wave d' m = int p"
    using n_frames_per_wave_same[OF same] p(1) by simp
  have nats': "simd_inter_frame_level d' = int sd" "N d' = int n" "K d' = int k" "n_frames d' = int f"
    using nats eqs by simp_all
  have lV': "length V' = k * f" using len' lenV nats by simp
  define y where "y = take (p * n) (drop (m * sd * n) Y) @ drop (p * n) (Y_N d' ! m)"
  define st where "st = hard_decode_v d' (load_v d' y (impl d'))"
  define v where "v = store_v d' st (V_N d' ! m)"
  define d2 where "d2 = d'\<lparr> Y_N := (Y_N d')[m := y], impl := st, V_N := (V_N d')[m := v] \<rparr>"
  have lenv: "length v = length (V_N d' ! m)"
    using keep' by (simp add: v_def stores_keep_length_def)
  have step: "hard_decode_wave Y True True False False m (d', V') =
      Inr (d2, take (m * sd * k) V' @ take (p * k) v @ drop (m * sd * k + p * k) V')"
    using hard_decode_wave_char[OF inv' w' lenY' nats' npw', where load = True and store = True
          and store_fast = False and unpack = False and V = V'] lenv lV'
    by (simp add: y_def st_def v_def d2_def)
  let ?V'' = "take (m * sd * k) V' @ take (p * k) v @ drop (m * sd * k + p * k) V'"
  have run': "hard_decode_waves Y True True False False [0..<Suc m] (d, V) = Inr (d2, ?V'')"
    by (simp add: hard_decode_waves_append run step)
  from inv' have lens: "length (Y_N d') = nat (n_dec_waves d')" "length (V_N d') = nat (n_dec_waves d')"
    and sz: "list_all (\<lambda>y. nat (simd_inter_frame_level d' * N d') \<le> length y) (Y_N d')"
      "list_all (\<lambda>v. nat (simd_inter_frame_level d' * N d') \<le> length v) (V_N d')"
    unfolding decoder_inv_def by blast+
  have szY: "sd * n \<le> length (Y_N d' ! m)" and szV: "sd * n \<le> length (V_N d' ! m)"
    using sz w' lens nats' by (simp_all add: list_all_length nat_prod2)
  have "(m * sd + p) * n \<le> f * n" using p(4) by (intro mult_le_mono1)
  moreover have lY: "length Y = n * f" using lenY nats by (metis nat_int nat_prod2)
  ultimately have inY: "m * sd * n + p * n \<le> length Y" by (simp add: algebra_simps)
  have "p * n \<le> sd * n" using p(3) by simp
  then have pnY: "p * n \<le> length (Y_N d' ! m)" using szY by linarith
  have ly: "length y = length (Y_N d' ! m)" using inY pnY by (simp add: y_def)
  have "(m * sd + p) * k \<le> f * k" using p(4) by (intro mult_le_mono1)
  then have in1: "m * sd * k + p * k \<le> length V'" by (simp add: lV' algebra_simps)
  have "sd * k \<le> sd * n" using nats by simp
  then have skV: "sd * k \<le> length (V_N d' ! m)" using szV by linarith
  have "p * k \<le> sd * k" using p(3) by simp
  then have in2: "p * k \<le> length v" using skV lenv by linarith
  have inv2: "decoder_inv d2"
    using inv' w' lens ly lenv unfolding decoder_inv_def d2_def
    by (auto simp: list_all_length nth_list_update)
  have same2: "same_setup d d2" using same by (simp add: same_setup_def d2_def)
  have lenV'': "length ?V'' = length V" using in1 in2 len' by simp
  have ms: "m * sd < f" using p by linarith
  have min1: "min (m * sd) f = m * sd" using ms by simp
  have min2: "min (Suc m * sd) f = m * sd + p" using p by auto
  have frames: "frame k i ?V'' = dec1 (frame n i Y)" if i: "i < m * sd + p" for i
  proof (cases "i < m * sd")
    case True
    then have "(i + 1) * k \<le> m * sd * k" by (metis Suc_eq_plus1 Suc_leI mult_le_mono1)
    moreover have "m * sd * k \<le> length V'" using in1 by linarith
    ultimately have "frame k i ?V'' = frame k i V'"
      by (subst frame_append1) (simp_all add: frame_take)
    with fr True show ?thesis by (simp add: min1)
  next
    case False
    then obtain j where j: "i = m * sd + j" "j < p" using i
      by (metis add_diff_inverse_nat nat_add_left_cancel_less)
    have jk: "(j + 1) * k \<le> p * k" using j(2) by (metis Suc_eq_plus1 Suc_leI mult_le_mono1)
    have jn: "(j + 1) * n \<le> p * n" using j(2) by (metis Suc_eq_plus1 Suc_leI mult_le_mono1)
    have "length (take (m * sd * k) V') = (m * sd) * k" using in1 by simp
    then have "frame k i ?V'' = frame k j (take (p * k) v @ drop (m * sd * k + p * k) V')"
      unfolding j(1) by (rule frame_append2)
    also have "\<dots> = frame k j (take (p * k) v)"
      using jk in2 by (subst frame_append1) simp_all
    also have "\<dots> = frame k j v" using jk by (rule frame_take)
    also have "\<dots> = dec1 (frame n j y)"
      using lanes' j(2) p(3) szY ly skV
      unfolding lanes_independent_def v_def st_def nats'
      by (simp add: nat_int)
    also have "frame n j y = frame n j (take (p * n) (drop (m * sd * n) Y))"
      unfolding y_def using jn inY by (subst frame_append1) simp_all
    also have "\<dots> = frame n j (drop ((m * sd) * n) Y)" using jn by (subst frame_take) simp_all
    also have "\<dots> = frame n i Y" unfolding j(1) by (rule frame_drop)
    finally show ?thesis .
  qed
  have fin: "\<forall>i < min (Suc m * nat (simd_inter_frame_level d)) (nat (n_frames d)).
      frame (nat (K d)) i ?V'' = dec1 (frame (nat (N d)) i Y)"
    unfolding nats nat_int min2 using frames by blast
  from run' inv2 same2 lenV'' fin show ?case by blast
qed

lemma hard_decode_frames:
  fixes d :: "('b, 'r, 'st) Decoder_i"
  assumes inv: "decoder_inv d" and keep: "stores_keep_length d"
    and lanes: "lanes_independent d dec1"
    and lenY: "int (length Y) = N d * n_frames d"
    and lenV: "int (length V) = K d * n_frames d"
  shows "\<exists>d' V'. hard_decode d Y V True True False False = Inr (d', V') \<and>
           length V' = length V \<and>
           (\<forall>i < nat (n_frames d). frame (nat (K d)) i V' = dec1 (frame (nat (N d)) i Y))"
proof -
  obtain sd n k f where nats: "simd_inter_frame_level d = int sd" "N d = int n" "K d = int k"
    "n_frames d = int f" "0 < sd" "0 < k" "k \<le> n" "0 < f" using decoder_inv_nat[OF inv] by metis
  have lV: "length V = k * f" using lenV nats by (metis nat_int nat_prod2)
  have lY: "length Y = n * f" using lenY nats by (metis nat_int nat_prod2)
  have "k * f \<le> n * f" using nats by simp
  then have le: "int (length V) \<le> N d * n_frames d"
    using lV nats by (metis of_nat_le_iff of_nat_mult)
  show ?thesis
  proof (cases "n_dec_waves d = 1 \<and> n_inter_frame_rest d = 0")
    case True
    then have "n_frames d = simd_inter_frame_level d"
      using inv by (intro fast_path_frames) simp_all
    then have fs: "f = sd" using nats by simp
    let ?st = "hard_decode_v d (load_v d Y (impl d))"
    have "private_hard_decode d Y V True True False False = Inr (?st, store_v d ?st V)"
      using lenY lenV fs nats by (subst private_hard_decode_ok) (simp_all add: Let_def)
    with True lenY le
    have r: "hard_decode d Y V True True False False = Inr (d\<lparr>impl := ?st\<rparr>, store_v d ?st V)"
      by (simp add: hard_decode_def)
    have "\<forall>i < f. frame k i (store_v d ?st V) = dec1 (frame n i Y)"
      using lanes lV lY fs unfolding lanes_independent_def nats nat_int
      by (simp add: mult.commute)
    moreover have "length (store_v d ?st V) = length V"
      using keep by (simp add: stores_keep_length_def)
    ultimately show ?thesis using r nats by simp
  next
    case False
    then have gen: "hard_decode d Y V True True False False =
         hard_decode_waves Y True True False False [0..<nat (n_dec_waves d)] (d, V)"
      using lenY le by (intro hard_decode_general_path) auto
    have wpos: "0 < nat (n_dec_waves d)" using waves_pos[OF inv] by simp
    have "int f \<le> n_dec_waves d * int sd" using waves_cover[OF inv] nats by simp
    also have "\<dots> = int (nat (n_dec_waves d) * sd)" using wpos by simp
    finally have "f \<le> nat (n_dec_waves d) * sd" by (simp only: of_nat_le_iff)
    then have mn: "min (nat (n_dec_waves d) * sd) f = f" by simp
    have lenV': "length V = nat (K d) * nat (n_frames d)" using lV nats by simp
    from hard_decode_frames_prefix[OF inv keep lanes lenY lenV' order_refl]
    show ?thesis unfolding gen nats nat_int mn by blast
  qed
qed

lemma length_concat_blocks:
  "(\<And>j. j < sd \<Longrightarrow> length (g j) = k) \<Longrightarrow> length (concat (map g [0..<sd])) = sd * k"
  by (induction sd) simp_all

lemma frame_concat_blocks:
  "(\<And>j. j < sd \<Longrightarrow> length (g j) = k) \<Longrightarrow> i < sd \<Longrightarrow> frame k i (concat (map g [0..<sd])) = g i"
proof (induction sd)
  case 0
  then show ?case by simp
next
  case (Suc sd)
  have len: "length (concat (map g [0..<sd])) = sd * k"
    using Suc.prems(1) by (intro length_concat_blocks) simp
  show ?case
  proof (cases "i < sd")
    case True
    then have "(i + 1) * k \<le> sd * k" by (metis Suc_eq_plus1 Suc_leI mult_le_mono1)
    then have "frame k i (concat (map g [0..<Suc sd])) = frame k i (concat (map g [0..<sd]))"
      using len by (simp add: frame_append1)
    with Suc True show ?thesis by simp
  next
    case False
    with Suc.prems have i: "i = sd" by simp
    have "frame k (sd + 0) (concat (map g [0..<sd]) @ g sd) = frame k 0 (g sd)"
      using len by (rule frame_append2)
    then show ?thesis using Suc.prems(1)[of sd] by (simp add: i frame_0_all)
  qed
qed

lemma hard_decoder_lanes:
  assumes "k \<le> n"
  shows "lanes_independent (hard_decoder k n f sd) (hard_frame k)"
  unfolding lanes_independent_def
proof (intro allI impI)
  fix st :: "int list" and y v :: "int list" and i
  assume a: "i < nat (simd_inter_frame_level (hard_decoder k n f sd)) \<and>
       nat (simd_inter_frame_level (hard_decoder k n f sd)) * nat (N (hard_decoder k n f sd)) \<le> length y \<and>
       nat (simd_inter_frame_level (hard_decoder k n f sd)) * nat (K (hard_decoder k n f sd)) \<le> length v"
  then have i: "i < sd" and ly: "sd * n \<le> length y" and lv: "sd * k \<le> length v"
    by (simp_all add: hard_decoder_fields)
  have ik: "(i + 1) * k \<le> sd * k" using i by (metis Suc_eq_plus1 Suc_leI mult_le_mono1)
  have "(i + 1) * n \<le> sd * n" using i by (metis Suc_eq_plus1 Suc_leI mult_le_mono1)
  then have iy: "i * n + n \<le> length y" using ly by simp
  have "frame k i (hard_store k n sd y v) = frame k i (hard_bits k n sd y @ drop (sd * k) v)"
    unfolding hard_store_def using lv ik by (subst frame_take) (simp_all add: length_hard_bits)
  also have "\<dots> = frame k i (hard_bits k n sd y)"
    using ik by (subst frame_append1) (simp_all add: length_hard_bits)
  also have "\<dots> = map (\<lambda>j. if y ! (i * n + j) < 0 then 1 else 0) [0..<k]"
    unfolding hard_bits_def using i by (subst frame_concat_blocks) simp_all
  also have "\<dots> = hard_frame k (frame n i y)"
    unfolding hard_frame_def frame_def using iy assms by (auto simp: add.commute)
  finally show "frame (nat (K (hard_decoder k n f sd))) i
        (store_v (hard_decoder k n f sd)
          (hard_decode_v (hard_decoder k n f sd) (load_v (hard_decoder k n f sd) y st)) v) =
       hard_frame k (frame (nat (N (hard_decoder k n f sd))) i y)"
    by (simp add: hard_decoder_def)
qed

text \<open>
  Claim C2. Take a decoder with \<open>n_frames = 5\<close> and \<open>simd_inter_frame_level = 2\<close>
  and any decoder with \<open>n_frames = 1\<close> and the same \<open>K\<close> and \<open>N\<close>, both as their
  constructors leave them, whose virtual functions treat the frames of a wave one by one,
  as the same single-frame function. Then the first decodes in three waves, the last of
  one frame, and one call of \<^verbatim>\<open>hard_decode\<close> on five frames succeeds and gives in frame
  \<open>i\<close> of its output exactly the output of a call of the single-frame decoder on frame
  \<open>i\<close> of the input, which succeeds as well.
\<close>

theorem wave_batching_equivalence:
  fixes d5 :: "('b, 'r, 'st) Decoder_i" and d1 :: "('b, 'r, 'st1) Decoder_i"
  assumes five: "decoder_inv d5" "stores_keep_length d5" "lanes_independent d5 dec1"
      "n_frames d5 = 5" "simd_inter_frame_level d5 = 2"
    and one: "decoder_inv d1" "stores_keep_length d1" "lanes_independent d1 dec1"
      "n_frames d1 = 1" "K d1 = K d5" "N d1 = N d5"
    and lens: "int (length Y) = N d5 * 5" "int (length V) = K d5 * 5" "int (length V1) = K d5"
  shows "n_dec_waves d5 = 3 \<and> n_frames_per_wave d5 2 = 1 \<and>
         (\<exists>d5' V'. hard_decode d5 Y V True True False False = Inr (d5', V') \<and>
            (\<forall>i<5. \<exists>d1' Vi.
               hard_decode d1 (frame (nat (N d5)) i Y) V1 True True False False = Inr (d1', Vi) \<and>
               frame (nat (K d5)) i V' = Vi))"
proof (intro conjI)
  from five(1) have wv: "n_dec_waves d5 = (n_frames d5 + simd_inter_frame_level d5 - 1) div simd_inter_frame_level d5"
    and rs: "n_inter_frame_rest d5 = n_frames d5 mod simd_inter_frame_level d5"
    and kn: "0 < K d5" "K d5 \<le> N d5"
    unfolding decoder_inv_def by blast+
  show w3: "n_dec_waves d5 = 3" unfolding wv five(4,5) by simp
  have "n_inter_frame_rest d5 = 1" unfolding rs five(4,5) by simp
  then show "n_frames_per_wave d5 2 = 1" by (simp add: n_frames_per_wave_def w3)
  define n k where "n = nat (N d5)" and "k = nat (K d5)"
  have nk: "N d5 = int n" "K d5 = int k" "0 < k" "k \<le> n" using kn by (simp_all add: n_def k_def)
  have lY: "length Y = n * 5" using lens(1) nk by (metis nat_int nat_prod2 of_nat_numeral)
  from hard_decode_frames[OF five(1,2,3), of Y V] lens five(4)
  obtain d5' V' where r5: "hard_decode d5 Y V True True False False = Inr (d5', V')"
    and f5: "\<forall>i < 5. frame k i V' = dec1 (frame n i Y)"
    by (auto simp: n_def k_def)
  have "\<exists>d1' Vi. hard_decode d1 (frame n i Y) V1 True True False False = Inr (d1', Vi) \<and>
               frame k i V' = Vi" if i: "i < 5" for i
  proof -
    have "(i + 1) * n \<le> 5 * n" using i by (intro mult_le_mono1) simp
    then have lf: "length (frame n i Y) = n" using lY by (intro length_frame) simp
    then have l1: "int (length (frame n i Y)) = N d1 * n_frames d1" using one nk by simp
    have l2: "int (length V1) = K d1 * n_frames d1" using one lens by simp
    from hard_decode_frames[OF one(1,2,3) l1 l2]
    obtain d1' Vi where r1: "hard_decode d1 (frame n i Y) V1 True True False False = Inr (d1', Vi)"
      and lVi: "length Vi = length V1"
      and f1: "\<forall>j < nat (n_frames d1). frame (nat (K d1)) j Vi = dec1 (frame (nat (N d1)) j (frame n i Y))"
      by blast
    have "length Vi = k" using lVi lens(3) nk by simp
    then have "frame k 0 Vi = Vi" by (rule frame_0_all)
    moreover have "frame n 0 (frame n i Y) = frame n i Y" using lf by (rule frame_0_all)
    moreover have "frame k 0 Vi = dec1 (frame n 0 (frame n i Y))"
      using f1 one nk by simp
    ultimately have "Vi = dec1 (frame n i Y)" by simp
    with f5 i r1 show ?thesis by simp
  qed
  with r5 show "\<exists>d5' V'. hard_decode d5 Y V True True False False = Inr (d5', V') \<and>
            (\<forall>i<5. \<exists>d1' Vi.
               hard_decode d1 (frame (nat (N d5)) i Y) V1 True True False False = Inr (d1', Vi) \<and>
               frame (nat (K d5)) i V' = Vi)"
    unfolding n_def k_def by blast
qed

lemma hard_decoder_run5:
  "\<exists>d'. hard_decode (hard_decoder 1 2 5 2) [1, - 1, - 2, 3, - 4, 5, 6, - 7, - 8, 9] [9, 9, 9, 9, 9]
          True True False False = Inr (d', [0, 1, 1, 0, 1])"
  apply (simp add: hard_decode_def hard_decoder_fields)
  apply (simp add: upt_conv_Cons hard_decode_wave_def load_wave_def store_wave_def n_frames_per_wave_def private_hard_decode_def std_copy_def Let_def hard_decoder_def
        hard_store_def hard_bits_def numeral_eq_Suc)
  done

text \<open>
  Five frames of two LLRs against five single-frame calls of the hard-decision decoder.
\<close>

theorem wave_batching_equivalence_witness:
  "decoder_inv (hard_decoder 1 2 5 2) \<and> stores_keep_length (hard_decoder 1 2 5 2) \<and>
   lanes_independent (hard_decoder 1 2 5 2) (hard_frame 1) \<and>
   decoder_inv (hard_decoder 1 2 1 2) \<and> stores_keep_length (hard_decoder 1 2 1 2) \<and>
   lanes_independent (hard_decoder 1 2 1 2) (hard_frame 1) \<and>
   n_dec_waves (hard_decoder 1 2 5 2) = 3 \<and> n_frames_per_wave (hard_decoder 1 2 5 2) 2 = 1 \<and>
   (\<exists>d5' V'. hard_decode (hard_decoder 1 2 5 2) [1, - 1, - 2, 3, - 4, 5, 6, - 7, - 8, 9]
                 [9, 9, 9, 9, 9] True True False False = Inr (d5', V') \<and>
      V' = [0, 1, 1, 0, 1] \<and>
      (\<forall>i<5. \<exists>d1' Vi.
         hard_decode (hard_decoder 1 2 1 2) (frame 2 i [1, - 1, - 2, 3, - 4, 5, 6, - 7, - 8, 9]) [9]
           True True False False = Inr (d1', Vi) \<and>
         frame 1 i V' = Vi))"
proof -
  let ?d5 = "hard_decoder 1 2 5 2" and ?d1 = "hard_decoder 1 2 1 2"
  let ?Y = "[1, - 1, - 2, 3, - 4, 5, 6, - 7, - 8, 9] :: int list"
  have i5: "decoder_inv ?d5" and i1: "decoder_inv ?d1" by (rule hard_decoder_inv; simp)+
  have k5: "stores_keep_length ?d5" and k1: "stores_keep_length ?d1" by (rule hard_decoder_keep)+
  have l5: "lanes_independent ?d5 (hard_frame 1)" and l1: "lanes_independent ?d1 (hard_frame 1)"
    by (rule hard_decoder_lanes; simp)+
  have f: "n_frames ?d5 = 5" "simd_inter_frame_level ?d5 = 2" "n_frames ?d1 = 1"
    "K ?d1 = K ?d5" "N ?d1 = N ?d5"
    "int (length ?Y) = N ?d5 * 5" "int (length [9, 9, 9, 9, 9 :: int]) = K ?d5 * 5"
    "int (length [9 :: int]) = K ?d5"
    by (simp_all add: hard_decoder_fields)
  have nk: "nat (N ?d5) = 2" "nat (K ?d5) = 1" by (simp_all add: hard_decoder_fields)
  from wave_batching_equivalence [OF i5 k5 l5 f(1,2) i1 k1 l1 f(3-8)]
  have c: "n_dec_waves ?d5 = 3" "n_frames_per_wave ?d5 2 = 1"
    "\<exists>d5' V'. hard_decode ?d5 ?Y [9, 9, 9, 9, 9] True True False False = Inr (d5', V') \<and>
      (\<forall>i<5. \<exists>d1' Vi.
         hard_decode ?d1 (frame 2 i ?Y) [9] True True False False = Inr (d1', Vi) \<and>
         frame 1 i V' = Vi)"
    unfolding nk by blast+
  from c(3) hard_decoder_run5
  have "\<exists>d5' V'. hard_decode ?d5 ?Y [9, 9, 9, 9, 9] True True False False = Inr (d5', V') \<and>
      V' = [0, 1, 1, 0, 1] \<and>
      (\<forall>i<5. \<exists>d1' Vi.
         hard_decode ?d1 (frame 2 i ?Y) [9] True True False False = Inr (d1', Vi) \<and>
         frame 1 i V' = Vi)"
    by (metis Pair_inject sum.inject(2))
  with i5 k5 l5 i1 k1 l1 c(1,2) show ?thesis by blast
qed

subsection \<open>The multi-kernel SC decoder: construction and combine functions\<close>

text \<open>The local comparison of kernels is equality, and what a constructor that returns has checked and stored.\<close>

lemma same_polar_kernel_eq: "same_polar_kernel a b = (a = b)"
  by (simp add: same_polar_kernel_def list_all2_eq [symmetric])

lemma ctor_Inr:
  assumes "Decoder_polar_MK_SC_naive_ctor k n cd fb nf = Inr d"
  shows "0 < k" "k \<le> n" "kernel_matrices cd \<noteq> []" "is_mono_kernel cd"
    "2 \<le> length (kernel_matrices cd ! 0)" "n = codeword_size cd" "n = int (length fb)"
    "k = int (length (filter (\<lambda>b. b = False) fb))"
    "kernel_matrices cd ! 0 \<in> {arikan_kernel, kernel_111_101_011, kernel_100_110_101}"
    "recursive_initialize_frozen_bits
       (recursive_allocate_nodes_contents cd (int (length (stages cd)) - 1)
          (Generic_tree (length (stages cd) + 1) (length (kernel_matrices cd ! 0))) (nat n)) fb
      = Some (polar_tree d)"
    "those (map Ke_init (kernel_matrices cd)) = Some (Ke d)"
    "lambdas d = recognised_lambdas (kernel_matrices cd ! 0)"
    "code d = cd" "frozen_bits d = fb" "K d = k" "N d = n" "n_frames d = nf"
    "simd_inter_frame_level d = 1"
  using assms
  unfolding Decoder_polar_MK_SC_naive_ctor_def Decoder_checks_def Let_def same_polar_kernel_eq
    recognised_lambdas_def
  by (auto split: if_splits option.splits simp: arikan_kernel_def kernel_111_101_011_def kernel_100_110_101_def)



text \<open>The constructor on the Arikan code of one stage.\<close>

lemma ctor_arikan2:
  "(Decoder_polar_MK_SC_naive_ctor 1 2 (mono_code arikan_kernel 1) [True, False] 1
      :: (_ + 'w::len word Decoder_polar_MK_SC_naive)) =
   Inr \<lparr> n_frames = 1, K = 1, N = 2, simd_inter_frame_level = 1,
         code = mono_code arikan_kernel 1, frozen_bits = [True, False],
         polar_tree = Generic_node (Some \<lparr> l = [0, 0], s = [0, 0], stage = 0, is_frozen_bit = True \<rparr>) 0
           [Generic_node (Some \<lparr> l = [0], s = [0], stage = - 1, is_frozen_bit = True \<rparr>) 0 [],
            Generic_node (Some \<lparr> l = [0], s = [0], stage = - 1, is_frozen_bit = False \<rparr>) 1 []],
         Ke = [[1, 1, 0, 1]], lambdas = lambdas_arikan \<rparr>"
  by (simp add: Decoder_polar_MK_SC_naive_ctor_def Decoder_checks_def mono_code_def arikan_kernel_def
      Generic_tree_def new_Contents_MK_SC_def Ke_init_def same_polar_kernel_def Let_def upt_conv_Cons
      numeral_2_eq_2)



text \<open>Allocation and initialisation of the frozen flags turn the bare tree into \<open>built_tree\<close>; the sizes of a mono-kernel code; the constructor on arguments that pass every check.\<close>

lemma those_map_Some:
  "(\<And>x. x \<in> set xs \<Longrightarrow> f x = Some (g x)) \<Longrightarrow> those (map f xs) = Some (map g xs)"
  by (induction xs) simp_all

lemma init_alloc_create:
  fixes b m lane :: nat
  assumes b: "length (kernel_matrices cd ! 0) = b" "0 < b"
  shows "(lane + 1) * b ^ m \<le> length fb \<Longrightarrow>
    recursive_initialize_frozen_bits
      (recursive_allocate_nodes_contents cd (int m - 1)
         (create_nodes m b lane :: 'r::zero Generic_node) (b ^ m)) fb =
    Some (built_tree b m lane fb)"
proof (induction m arbitrary: lane)
  case 0
  then show ?case by simp
next
  case (Suc m)
  have child: "recursive_initialize_frozen_bits
      (recursive_allocate_nodes_contents cd (int m - 1)
         (create_nodes m b (lane * b + i) :: 'r Generic_node) (b ^ m)) fb =
      Some (built_tree b m (lane * b + i) fb)" if "i < b" for i
  proof (rule Suc.IH)
    have "lane * b + i + 1 \<le> (lane + 1) * b" using that by (simp add: algebra_simps)
    then have "(lane * b + i + 1) * b ^ m \<le> ((lane + 1) * b) * b ^ m" by (rule mult_le_mono1)
    also have "\<dots> = (lane + 1) * b ^ Suc m" by (simp add: algebra_simps)
    finally show "(lane * b + i + 1) * b ^ m \<le> length fb" using Suc.prems by simp
  qed
  have dv: "b ^ Suc m div b = b ^ m" using b(2) by simp
  have "those (map (\<lambda>c. recursive_initialize_frozen_bits c fb)
          (map (\<lambda>c. recursive_allocate_nodes_contents cd (int m - 1) c (b ^ m))
             (map (\<lambda>i. create_nodes m b (lane * b + i) :: 'r Generic_node) [0..<b]))) =
        Some (map (\<lambda>i. built_tree b m (lane * b + i) fb) [0..<b])"
    unfolding map_map by (rule those_map_Some) (simp add: child)
  then show ?case using b by (simp add: dv del: power_Suc)
qed


lemma all_contents_built_tree:
  "get_contents (built_tree b m lane fb :: 'r::zero Generic_node) \<noteq> None"
  by (cases m) simp_all

lemma mono_codeword_size:
  assumes "Polar_code_inv cd" "is_mono_kernel cd"
  shows "codeword_size cd = int (length (kernel_matrices cd ! 0) ^ length (stages cd))"
    and "list_all (\<lambda>st. st = 0) (stages cd)"
    and "kernel_matrices cd = [kernel_matrices cd ! 0]"
    and "biggest_kernel_size cd = length (kernel_matrices cd ! 0)"
proof -
  from assms have one: "length (kernel_matrices cd) = 1"
    and st: "list_all (\<lambda>st. st < length (kernel_matrices cd)) (stages cd)"
    and cw: "codeword_size cd = int (prod_list (map (\<lambda>st. length (kernel_matrices cd ! st)) (stages cd)))"
    and bg: "biggest_kernel_size cd = Max (set (map length (kernel_matrices cd)))"
    unfolding Polar_code_inv_def by blast+
  from one show km: "kernel_matrices cd = [kernel_matrices cd ! 0]"
    by (cases "kernel_matrices cd") simp_all
  from st one show z: "list_all (\<lambda>st. st = 0) (stages cd)" by (simp add: list_all_iff)
  then have "map (\<lambda>st. length (kernel_matrices cd ! st)) (stages cd) =
      replicate (length (stages cd)) (length (kernel_matrices cd ! 0))"
    by (auto simp: list_all_iff map_replicate_const [symmetric] intro!: map_cong)
  then show "codeword_size cd = int (length (kernel_matrices cd ! 0) ^ length (stages cd))"
    using cw by (simp add: prod_list_replicate)
  show "biggest_kernel_size cd = length (kernel_matrices cd ! 0)"
    unfolding bg by (subst km) simp
qed

lemma Ke_init_square:
  "list_all (\<lambda>row. length row = length M) M \<Longrightarrow>
   Ke_init M = Some (concat (map (\<lambda>i. map (\<lambda>j. of_bool (M ! j ! i)) [0..<length M]) [0..<length M]))"
  by (auto simp: Ke_init_def Let_def list_all_iff)

lemma ctor_success:
  fixes k n :: int
  assumes inv: "Polar_code_inv cd" and mono: "is_mono_kernel cd"
    and base: "2 \<le> length (kernel_matrices cd ! 0)"
    and n: "n = codeword_size cd" and len: "n = int (length fb)"
    and rec: "kernel_matrices cd ! 0 \<in> {arikan_kernel, kernel_111_101_011, kernel_100_110_101}"
    and k: "0 < k" "k \<le> n"
    and cnt: "k = int (length (filter (\<lambda>b. b = False) fb))"
  shows "(Decoder_polar_MK_SC_naive_ctor k n cd fb nf
            :: (error \<times> 'w word Generic_node option) + 'w::len word Decoder_polar_MK_SC_naive) =
     Inr \<lparr> n_frames = nf, K = k, N = n, simd_inter_frame_level = 1,
           code = cd, frozen_bits = fb,
           polar_tree = built_tree (length (kernel_matrices cd ! 0)) (length (stages cd)) 0 fb,
           Ke = [concat (map (\<lambda>i. map (\<lambda>j. of_bool (kernel_matrices cd ! 0 ! j ! i))
                                     [0..<length (kernel_matrices cd ! 0)])
                             [0..<length (kernel_matrices cd ! 0)])],
           lambdas = recognised_lambdas (kernel_matrices cd ! 0) \<rparr>"
proof -
  let ?G = "kernel_matrices cd ! 0" and ?b = "length (kernel_matrices cd ! 0)"
  let ?m = "length (stages cd)"
  note mc = mono_codeword_size[OF inv mono]
  have kne1: "kernel_matrices cd \<noteq> []" using mc(3) by (metis list.distinct(1))
  have kne2: "?G \<noteq> []"
  proof
    assume "?G = []"
    then have "length ?G = 0" by simp
    with base show False by linarith
  qed
  note kne = kne1 kne2
  have nb: "nat n = ?b ^ ?m" unfolding n mc(1) by (rule nat_int)
  have lfb: "length fb = ?b ^ ?m" using len nb by simp
  have chk: "Decoder_checks k n 1 = None" using k by (simp add: Decoder_checks_def)
  have tree: "recursive_initialize_frozen_bits
      (recursive_allocate_nodes_contents cd (int ?m - 1)
         (Generic_tree (?m + 1) ?b :: 'w word Generic_node) (nat n)) fb =
      Some (built_tree ?b ?m 0 fb)"
  proof -
    have "0 < ?b" using base by linarith
    moreover have "(0 + 1) * ?b ^ ?m \<le> length fb" using lfb by simp
    ultimately show ?thesis
      unfolding Generic_tree_def nb using init_alloc_create[OF refl, of cd 0 ?m fb] by simp
  qed
  have "list_all (\<lambda>M. list_all (\<lambda>row. length row = length M) M) (kernel_matrices cd)"
    using inv unfolding Polar_code_inv_def by blast
  then have "list_all (\<lambda>M. list_all (\<lambda>row. length row = length M) M) [?G]"
    using mc(3) by simp
  then have sq: "list_all (\<lambda>row. length row = length ?G) ?G" by simp
  have ke: "those (map Ke_init (kernel_matrices cd)) =
      Some [concat (map (\<lambda>i. map (\<lambda>j. of_bool (?G ! j ! i)) [0..<?b]) [0..<?b])]"
    by (subst mc(3)) (simp add: Ke_init_square[OF sq])
  have tk: "take (nat (codeword_size cd)) fb = fb" using len n by simp
  have tree': "recursive_initialize_frozen_bits
      (recursive_allocate_nodes_contents cd (int ?m - 1)
         (Generic_tree (Suc ?m) ?b :: 'w word Generic_node) (nat (codeword_size cd))) fb =
      Some (built_tree ?b ?m 0 fb)"
    using tree n by simp
  show ?thesis
    unfolding Decoder_polar_MK_SC_naive_ctor_def chk
    using kne mono base n len cnt rec
    by (auto simp: Let_def tk tree' ke same_polar_kernel_eq recognised_lambdas_def
        arikan_kernel_def kernel_111_101_011_def kernel_100_110_101_def)
qed

text \<open>The constructor on a mask whose number of zero entries is not \<open>K\<close>.\<close>

lemma ctor_count_mismatch:
  fixes k n :: int
  assumes inv: "Polar_code_inv cd" and mono: "is_mono_kernel cd"
    and base: "2 \<le> length (kernel_matrices cd ! 0)"
    and n: "n = codeword_size cd" and len: "n = int (length fb)"
    and k: "0 < k" "k \<le> n"
    and cnt: "k \<noteq> int (length (filter (\<lambda>b. b = False) fb))"
  shows "(Decoder_polar_MK_SC_naive_ctor k n cd fb nf
            :: (error \<times> 'w word Generic_node option) + 'w::len word Decoder_polar_MK_SC_naive) =
     Inl (runtime_error ''The number of information bits in the frozen_bits is invalid'',
          Some (Generic_tree (length (stages cd) + 1) (length (kernel_matrices cd ! 0))))"
proof -
  note mc = mono_codeword_size[OF inv mono]
  have kne1: "kernel_matrices cd \<noteq> []" using mc(3) by (metis list.distinct(1))
  have kne2: "kernel_matrices cd ! 0 \<noteq> []"
  proof
    assume "kernel_matrices cd ! 0 = []"
    then have "length (kernel_matrices cd ! 0) = 0" by simp
    with base show False by linarith
  qed
  have chk: "Decoder_checks k n 1 = None" using k by (simp add: Decoder_checks_def)
  have tk: "take (nat (codeword_size cd)) fb = fb" using len n by simp
  show ?thesis
    unfolding Decoder_polar_MK_SC_naive_ctor_def chk
    using kne1 kne2 mono base n len cnt
    by (auto simp: Let_def tk)
qed

text \<open>
  Claim C7. When the other checks of the constructor pass (mono-kernel code, recognised kernel
  of dimension at least 2, \<open>N\<close> equal to the codeword size and to the length of the mask,
  \<open>0 < K \<le> N\<close>), the decoder is constructed if and only if the number of zero entries of the
  frozen-bit mask equals \<open>K\<close>; on a mismatch the constructor throws the runtime error of
  lines 68-74.
\<close>
theorem constructible_iff_frozen_count:
  fixes k n :: int
  assumes inv: "Polar_code_inv cd" and mono: "is_mono_kernel cd"
    and base: "2 \<le> length (kernel_matrices cd ! 0)"
    and n: "n = codeword_size cd" and len: "n = int (length fb)"
    and rec: "kernel_matrices cd ! 0 \<in> {arikan_kernel, kernel_111_101_011, kernel_100_110_101}"
    and k: "0 < k" "k \<le> n"
  shows "((\<exists>d :: 'w::len word Decoder_polar_MK_SC_naive.
            Decoder_polar_MK_SC_naive_ctor k n cd fb nf = Inr d) \<longleftrightarrow>
          int (length (filter (\<lambda>b. b = False) fb)) = k) \<and>
         (int (length (filter (\<lambda>b. b = False) fb)) \<noteq> k \<longrightarrow>
          (\<exists>t. (Decoder_polar_MK_SC_naive_ctor k n cd fb nf
                   :: (error \<times> 'w word Generic_node option) + 'w word Decoder_polar_MK_SC_naive) =
                Inl (runtime_error
                       ''The number of information bits in the frozen_bits is invalid'', t)))"
proof (intro conjI iffI impI)
  assume "\<exists>d :: 'w word Decoder_polar_MK_SC_naive. Decoder_polar_MK_SC_naive_ctor k n cd fb nf = Inr d"
  then obtain d :: "'w word Decoder_polar_MK_SC_naive"
    where "Decoder_polar_MK_SC_naive_ctor k n cd fb nf = Inr d" by blast
  from ctor_Inr(8)[OF this] show "int (length (filter (\<lambda>b. b = False) fb)) = k" by simp
next
  assume "int (length (filter (\<lambda>b. b = False) fb)) = k"
  then have "k = int (length (filter (\<lambda>b. b = False) fb))" by simp
  from ctor_success[OF inv mono base n len rec k this, where ?'w = 'w]
  show "\<exists>d :: 'w word Decoder_polar_MK_SC_naive. Decoder_polar_MK_SC_naive_ctor k n cd fb nf = Inr d"
    by blast
next
  assume "int (length (filter (\<lambda>b. b = False) fb)) \<noteq> k"
  then have "k \<noteq> int (length (filter (\<lambda>b. b = False) fb))" by simp
  from ctor_count_mismatch[OF inv mono base n len k this, where ?'w = 'w]
  show "\<exists>t. (Decoder_polar_MK_SC_naive_ctor k n cd fb nf
                   :: (error \<times> 'w word Generic_node option) + 'w word Decoder_polar_MK_SC_naive) =
                Inl (runtime_error
                       ''The number of information bits in the frozen_bits is invalid'', t)"
    by blast
qed

text \<open>The mono-kernel codes over a square kernel are code descriptions.\<close>

lemma mono_code_inv: "G \<noteq> [] \<Longrightarrow> list_all (\<lambda>row. length row = length G) G \<Longrightarrow> Polar_code_inv (mono_code G m)"
  by (simp add: Polar_code_inv_def mono_code_def list_all_iff comp_def prod_list_replicate
      map_replicate_const)

lemma mono_code_fields:
  "kernel_matrices (mono_code G m) = [G]" "stages (mono_code G m) = replicate m 0"
  "codeword_size (mono_code G m) = int (length G ^ m)" "is_mono_kernel (mono_code G m)"
  "biggest_kernel_size (mono_code G m) = length G"
  by (simp_all add: mono_code_def)

theorem constructible_iff_frozen_count_witness:
  "Polar_code_inv (mono_code arikan_kernel 3) \<and> is_mono_kernel (mono_code arikan_kernel 3) \<and>
   2 \<le> length (kernel_matrices (mono_code arikan_kernel 3) ! 0) \<and>
   8 = codeword_size (mono_code arikan_kernel 3) \<and>
   (8 :: int) = int (length [True, True, True, False, True, False, False, False]) \<and>
   int (length (filter (\<lambda>b. b = False) [True, True, True, False, True, False, False, False])) = 4 \<and>
   (\<exists>d :: 8 word Decoder_polar_MK_SC_naive.
      Decoder_polar_MK_SC_naive_ctor 4 8 (mono_code arikan_kernel 3)
        [True, True, True, False, True, False, False, False] 1 = Inr d) \<and>
   (\<nexists>d :: 8 word Decoder_polar_MK_SC_naive.
      Decoder_polar_MK_SC_naive_ctor 3 8 (mono_code arikan_kernel 3)
        [True, True, True, False, True, False, False, False] 1 = Inr d) \<and>
   (\<exists>t. (Decoder_polar_MK_SC_naive_ctor 3 8 (mono_code arikan_kernel 3)
            [True, True, True, False, True, False, False, False] 1
            :: (error \<times> 8 word Generic_node option) + 8 word Decoder_polar_MK_SC_naive) =
         Inl (runtime_error ''The number of information bits in the frozen_bits is invalid'', t))"
proof -
  let ?cd = "mono_code arikan_kernel 3"
  let ?fb = "[True, True, True, False, True, False, False, False]"
  have inv: "Polar_code_inv ?cd" by (rule mono_code_inv) (simp_all add: arikan_kernel_def)
  have mono: "is_mono_kernel ?cd" by (simp add: mono_code_fields)
  have base: "2 \<le> length (kernel_matrices ?cd ! 0)" by (simp add: mono_code_fields arikan_kernel_def)
  have n: "8 = codeword_size ?cd" by (simp add: mono_code_fields arikan_kernel_def)
  have len: "(8 :: int) = int (length ?fb)" by simp
  have rec: "kernel_matrices ?cd ! 0 \<in> {arikan_kernel, kernel_111_101_011, kernel_100_110_101}"
    by (simp add: mono_code_fields)
  have cnt: "int (length (filter (\<lambda>b. b = False) ?fb)) = 4" by simp
  note c4 = constructible_iff_frozen_count [OF inv mono base n len rec, of 4 1, where ?'w = 8]
  note c3 = constructible_iff_frozen_count [OF inv mono base n len rec, of 3 1, where ?'w = 8]
  from c4 cnt have y: "\<exists>d :: 8 word Decoder_polar_MK_SC_naive.
      Decoder_polar_MK_SC_naive_ctor 4 8 ?cd ?fb 1 = Inr d" by simp
  from c3 cnt have no: "\<nexists>d :: 8 word Decoder_polar_MK_SC_naive.
      Decoder_polar_MK_SC_naive_ctor 3 8 ?cd ?fb 1 = Inr d"
    and e: "\<exists>t. (Decoder_polar_MK_SC_naive_ctor 3 8 ?cd ?fb 1
            :: (error \<times> 8 word Generic_node option) + 8 word Decoder_polar_MK_SC_naive) =
         Inl (runtime_error ''The number of information bits in the frozen_bits is invalid'', t)"
    by simp_all
  from inv mono base n len cnt y no e show ?thesis by blast
qed

text \<open>
  Claim C3. The constructor given the unrecognised kernel \<open>{{1,1},{0,1}}\<close> (with \<open>K = 1\<close>,
  \<open>N = 2\<close>, one stage, mask \<open>[1, 0]\<close>): it throws ``Unsupported polar kernel.'' at lines
  187-192, after lines 76-77 have allocated the contents of every node of the tree and
  initialised the frozen flags.
\<close>
theorem unsupported_kernel_fails_after_allocation:
  "(Decoder_polar_MK_SC_naive_ctor 1 2 (mono_code [[True, True], [False, True]] 1) [True, False] 1
      :: (error \<times> 8 word Generic_node option) + 8 word Decoder_polar_MK_SC_naive) =
   Inl (runtime_error ''Unsupported polar kernel.'',
        Some (Generic_node (Some \<lparr> l = [0, 0], s = [0, 0], stage = 0, is_frozen_bit = True \<rparr>) 0
           [Generic_node (Some \<lparr> l = [0], s = [0], stage = - 1, is_frozen_bit = True \<rparr>) 0 [],
            Generic_node (Some \<lparr> l = [0], s = [0], stage = - 1, is_frozen_bit = False \<rparr>) 1 []]))"
  by (simp add: Decoder_polar_MK_SC_naive_ctor_def Decoder_checks_def mono_code_def arikan_kernel_def
      kernel_111_101_011_def kernel_100_110_101_def
      Generic_tree_def new_Contents_MK_SC_def Ke_init_def same_polar_kernel_def Let_def upt_conv_Cons
      numeral_2_eq_2)

subsection \<open>The multi-kernel SC decoder: re-encoding the partial sums\<close>

text \<open>The nested iteration of the re-encoding writes position \<open>n * i + k\<close> once for each kernel \<open>k\<close> and each row \<open>i\<close>.\<close>

lemma pos_unique:
  fixes n :: nat
  assumes "k < n" "k' < n"
  shows "(n * i + k = n * i' + k') = (i = i' \<and> k = k')"
proof
  assume e: "n * i + k = n * i' + k'"
  have "(n * i + k) div n = i" "(n * i + k) mod n = k" using assms by simp_all
  moreover have "(n * i' + k') div n = i'" "(n * i' + k') mod n = k'" using assms by simp_all
  ultimately show "i = i' \<and> k = k'" using e by metis
qed simp

lemma length_fold_update: "length (fold (\<lambda>i x. x[f i := g i]) js x) = length x"
  by (induction js arbitrary: x) simp_all

lemma fold_update_nth:
  fixes n :: nat
  assumes "k < n" "k' < n"
  shows "n * i + k < length x \<Longrightarrow>
    fold (\<lambda>i x. x[n * i + k' := g i]) js x ! (n * i + k) =
      (if k = k' \<and> i \<in> set js then g i else x ! (n * i + k))"
proof (induction js arbitrary: x)
  case Nil
  then show ?case by simp
next
  case (Cons a js)
  have "n * i + k < length (x[n * a + k' := g a])" using Cons.prems by simp
  from Cons.IH[OF this] show ?case
    using Cons.prems pos_unique[OF assms, of i a] by (auto simp: nth_list_update)
qed

lemma fold_fold_update_nth:
  fixes n :: nat
  assumes "k < n" "list_all (\<lambda>k'. k' < n) ks"
  shows "n * i + k < length x \<Longrightarrow>
    fold (\<lambda>k' x. fold (\<lambda>i x. x[n * i + k' := g k' i]) js x) ks x ! (n * i + k) =
      (if k \<in> set ks \<and> i \<in> set js then g k i else x ! (n * i + k))"
  using assms(2)
proof (induction ks arbitrary: x)
  case Nil
  then show ?case by simp
next
  case (Cons a ks)
  let ?y = "fold (\<lambda>i x. x[n * i + a := g a i]) js x"
  have a: "a < n" and ks: "list_all (\<lambda>k'. k' < n) ks" using Cons.prems by simp_all
  have len: "n * i + k < length ?y" using Cons.prems by (simp add: length_fold_update)
  have y: "?y ! (n * i + k) = (if k = a \<and> i \<in> set js then g a i else x ! (n * i + k))"
    using fold_update_nth[OF assms(1) a, of i x "g a" js] Cons.prems by simp
  from Cons.IH[OF len ks] y show ?case by auto
qed

lemma length_fold_fold_update:
  "length (fold (\<lambda>k' x. fold (\<lambda>i x. x[f k' i := g k' i]) js x) ks x) = length x"
  by (induction ks arbitrary: x) (simp_all add: length_fold_update)

text \<open>An element of a concatenation of blocks of one length.\<close>

lemma nth_concat_blocks:
  assumes "\<And>j. j < sd \<Longrightarrow> length (g j) = k" "i < sd" "j < k"
  shows "concat (map g [0..<sd]) ! (i * k + j) = g i ! j"
proof -
  have "g i ! j = frame k i (concat (map g [0..<sd])) ! j"
    using frame_concat_blocks[of sd g k i] assms by simp
  also have "\<dots> = concat (map g [0..<sd]) ! (i * k + j)"
  proof -
    have "Suc i * k \<le> sd * k" using assms(2) by (intro mult_le_mono1) simp
    then have "i * k + j < length (concat (map g [0..<sd]))"
      using length_concat_blocks[of sd g k] assms by simp
    then show ?thesis using assms(3) by (simp add: frame_def)
  qed
  finally show ?thesis by simp
qed

text \<open>The sum of the selected bits, reduced by \<open>AND 1\<close>, is their exclusive or.\<close>

lemma add_and_one:
  fixes t S :: int
  assumes "t = 0 \<or> t = 1"
  shows "(t + S) AND 1 = t XOR (S AND 1)"
proof -
  have m: "S mod 2 = 0 \<or> S mod 2 = 1" by presburger
  from assms m show ?thesis
    by (auto simp: and_one_eq) presburger+
qed

lemma xor_bits_bit: "bits01 bs \<Longrightarrow> xor_bits bs = 0 \<or> xor_bits bs = 1"
  by (induction bs) (auto simp: xor_bits_def bits01_def)

lemma sum_and_xor_bits:
  fixes v :: "nat \<Rightarrow> int"
  assumes "list_all (\<lambda>j. v j = 0 \<or> v j = 1) js"
  shows "sum_list (map (\<lambda>j. v j AND of_bool (g j)) js) AND 1 =
         xor_bits (map (\<lambda>j. if g j then v j else 0) js)"
  using assms
proof (induction js)
  case Nil
  then show ?case by (simp add: xor_bits_def)
next
  case (Cons a js)
  let ?t = "if g a then v a else 0"
  have va: "v a = 0 \<or> v a = 1" using Cons.prems by simp
  then have t: "v a AND of_bool (g a) = ?t" by auto
  have t01: "?t = 0 \<or> ?t = 1" using va by auto
  have "sum_list (map (\<lambda>j. v j AND of_bool (g j)) (a # js)) AND 1 =
        (?t + sum_list (map (\<lambda>j. v j AND of_bool (g j)) js)) AND 1"
    using t by simp
  also have "\<dots> = ?t XOR (sum_list (map (\<lambda>j. v j AND of_bool (g j)) js) AND 1)"
    by (rule add_and_one[OF t01])
  also have "\<dots> = ?t XOR xor_bits (map (\<lambda>j. if g j then v j else 0) js)"
    using Cons by simp
  finally show ?case by (simp add: xor_bits_def)
qed

text \<open>The kernel transform position by position, and \<^verbatim>\<open>reencode\<close> as the kernel transform of the partial sums of the children.\<close>

lemma length_kernel_transform:
  "length (kernel_transform G xs) = length G * length (xs ! 0)"
  unfolding kernel_transform_def by (rule length_concat_blocks) simp

lemma kernel_transform_nth:
  assumes "i < length G" "k < length (xs ! 0)"
  shows "kernel_transform G xs ! (length (xs ! 0) * i + k) =
         xor_bits (map (\<lambda>j. if G ! j ! i then xs ! j ! k else 0) [0..<length G])"
proof -
  have "kernel_transform G xs ! (i * length (xs ! 0) + k) =
      map (\<lambda>k. xor_bits (map (\<lambda>j. if G ! j ! i then xs ! j ! k else 0) [0..<length G]))
        [0..<length (xs ! 0)] ! k"
    unfolding kernel_transform_def by (rule nth_concat_blocks) (simp_all add: assms)
  moreover have "[0..<length (xs ! 0)] ! k = k" using assms(2) by simp
  moreover have "i * length (xs ! 0) + k = length (xs ! 0) * i + k" by simp
  ultimately show ?thesis using assms(2) by (simp cong: if_cong)
qed

lemma reencode_kernel_transform:
  fixes d :: "'w::len word Decoder_polar_MK_SC_naive"
  assumes md: "mono_decoder G d"
    and ch: "length ch = length G"
      "list_all (\<lambda>x. length (node_s x) = n \<and> bits01 (node_s x)) ch"
    and n: "0 < n"
    and c: "length (l c) = length G * n" "length (s c) = length G * n" "stage c = int m"
    and m: "m < length (stages (code d))"
  shows "reencode d c ch = Some (kernel_transform G (map node_s ch))"
proof -
  let ?b = "length G"
  let ?ke = "Ke d ! 0"
  from md have b0: "0 < ?b" and sq: "list_all (\<lambda>row. length row = length G) G"
    and bk: "?b \<le> biggest_kernel_size (code d)"
    and st0: "list_all (\<lambda>st. st = 0) (stages (code d))"
    and kne: "Ke d \<noteq> []" and ke: "Ke_init G = Some ?ke"
    unfolding mono_decoder_def by auto
  have kev: "?ke = concat (map (\<lambda>i. map (\<lambda>j. of_bool (G ! j ! i)) [0..<?b]) [0..<?b])"
    using ke Ke_init_square[OF sq] by simp
  have kenth: "?ke ! (i * ?b + j) = of_bool (G ! j ! i)" if "i < ?b" "j < ?b" for i j
  proof -
    have "?ke ! (i * ?b + j) = map (\<lambda>j. of_bool (G ! j ! i)) [0..<?b] ! j"
      unfolding kev by (rule nth_concat_blocks) (simp_all add: that)
    then show ?thesis using that by simp
  qed
  have klen: "length ?ke = ?b * ?b"
    unfolding kev by (rule length_concat_blocks) simp
  have sp: "length (l c) div ?b = n" "length (s c) div ?b = n" using c b0 by simp_all
  have stg: "stages (code d) ! m = 0" using st0 m by (simp add: list_all_length)
  have chn: "length (node_s (ch ! j)) = n" if "j < ?b" for j
    using ch that by (simp add: list_all_length)
  have chb: "node_s (ch ! j) ! k = 0 \<or> node_s (ch ! j) ! k = 1" if "j < ?b" "k < n" for j k
  proof -
    have "bits01 (node_s (ch ! j))" "length (node_s (ch ! j)) = n"
      using ch that by (simp_all add: list_all_length)
    then show ?thesis using that(2) by (simp add: bits01_def list_all_length)
  qed
  define g where "g k i = xor_bits (map (\<lambda>j. if G ! j ! i then node_s (ch ! j) ! k else 0) [0..<?b])"
    for k i
  define body where "body = (\<lambda>k x.
      (let idx = map (\<lambda>i. n * i + k) [0..<?b];
           u = map (\<lambda>i. node_s (ch ! ((idx ! i) div n)) ! ((idx ! i) mod n)) [0..<?b]
       in encode_polar_kernel u idx ?ke x ?b))"
  have dm: "(n * i + k) div n = i" "(n * i + k) mod n = k" if "k < n" for i k
    using that by simp_all
  have body_eq: "body k x = fold (\<lambda>i x. x[n * i + k := g k i]) [0..<?b] x" if k: "k < n" for k x
  proof -
    have u: "map (\<lambda>i. node_s (ch ! ((map (\<lambda>i. n * i + k) [0..<?b] ! i) div n)) !
                        ((map (\<lambda>i. n * i + k) [0..<?b] ! i) mod n)) [0..<?b] =
             map (\<lambda>j. node_s (ch ! j) ! k) [0..<?b]"
      using k by (intro map_cong) (simp_all add: dm[OF k])
    have sm: "sum_list (map (\<lambda>j. map (\<lambda>j. node_s (ch ! j) ! k) [0..<?b] ! j AND ?ke ! (i * ?b + j))
                 [0..<?b]) AND 1 = g k i" if i: "i < ?b" for i
    proof -
      have e: "map (\<lambda>j. map (\<lambda>j. node_s (ch ! j) ! k) [0..<?b] ! j AND ?ke ! (i * ?b + j)) [0..<?b] =
            map (\<lambda>j. node_s (ch ! j) ! k AND of_bool (G ! j ! i)) [0..<?b]"
        by (rule map_cong) (simp_all add: kenth[OF i])
      have b: "list_all (\<lambda>j. node_s (ch ! j) ! k = 0 \<or> node_s (ch ! j) ! k = 1) [0..<?b]"
        using chb k by (simp add: list_all_iff)
      show ?thesis unfolding g_def e by (rule sum_and_xor_bits) (rule b)
    qed
    show ?thesis
      unfolding body_def Let_def encode_polar_kernel_def u
      by (rule fold_cong) (simp_all add: sm)
  qed
  have cond: "list_all (\<lambda>k. list_all (\<lambda>i.
            (n * i + k) div n < ?b \<and>
            (n * i + k) mod n < length (node_s (ch ! ((n * i + k) div n))))
          [0..<?b]) [0..<n]"
    by (simp add: list_all_iff dm chn)
  have "reencode d c ch = Some (fold body [0..<n] (s c))"
    unfolding reencode_def body_def Let_def ch(1) sp c(3)
    using n bk m kne klen cond by (simp add: stg)
  also have "fold body [0..<n] (s c) =
      fold (\<lambda>k x. fold (\<lambda>i x. x[n * i + k := g k i]) [0..<?b] x) [0..<n] (s c)"
    by (rule fold_cong) (simp_all add: body_eq fun_eq_iff)
  also have "\<dots> = kernel_transform G (map node_s ch)" (is "?lhs = ?rhs")
  proof (rule nth_equalityI)
    have z: "map node_s ch ! 0 = node_s (ch ! 0)" using ch(1) b0 by simp
    show len: "length ?lhs = length ?rhs"
      by (simp add: length_fold_fold_update length_kernel_transform z chn[OF b0] c)
    fix p assume "p < length ?lhs"
    then have p: "p < ?b * n" by (simp add: length_fold_fold_update c)
    define i where "i = p div n"
    define k where "k = p mod n"
    have k: "k < n" using n by (simp add: k_def)
    have i: "i < ?b" unfolding i_def using p by (simp add: less_mult_imp_div_less)
    have pe: "p = n * i + k" by (simp add: i_def k_def)
    have "?lhs ! (n * i + k) = g k i"
      using fold_fold_update_nth[of k n "[0..<n]" i "s c" g "[0..<?b]"] k i p pe c
      by (simp add: list_all_iff)
    moreover have "?rhs ! (length (map node_s ch ! 0) * i + k) =
        xor_bits (map (\<lambda>j. if G ! j ! i then map node_s ch ! j ! k else 0) [0..<?b])"
      by (rule kernel_transform_nth) (simp_all add: i z chn[OF b0] k)
    moreover have "map (\<lambda>j. if G ! j ! i then map node_s ch ! j ! k else 0) [0..<?b] =
        map (\<lambda>j. if G ! j ! i then node_s (ch ! j) ! k else 0) [0..<?b]"
      by (rule map_cong) (simp_all add: ch(1))
    ultimately show "?lhs ! p = ?rhs ! p"
      unfolding pe g_def by (simp add: z chn[OF b0])
  qed
  finally show ?thesis .
qed

text \<open>Leaves, lanes and frozen flags of a node in terms of its children; none depends on the LLRs.\<close>

lemma leaves_node:
  "ch \<noteq> [] \<Longrightarrow> leaves (Generic_node co lane ch) = concat (map leaves ch)"
  by simp

lemma leaf_lanes_node:
  "ch \<noteq> [] \<Longrightarrow> leaf_lanes (Generic_node co lane ch) = concat (map leaf_lanes ch)"
  by (simp add: leaf_lanes_def [abs_def] map_concat comp_def)

lemma leaf_frozen_node:
  "ch \<noteq> [] \<Longrightarrow> leaf_frozen (Generic_node co lane ch) = concat (map leaf_frozen ch)"
  by (simp add: leaf_frozen_def [abs_def] map_concat comp_def)

lemma leaf_bits_node:
  "ch \<noteq> [] \<Longrightarrow> leaf_bits (Generic_node co lane ch) = concat (map leaf_bits ch)"
  by (simp add: leaf_bits_def [abs_def] map_concat comp_def)

lemma leaf_lanes_upd:
  "leaf_lanes (Generic_node (Some (c\<lparr> l := ll \<rparr>)) lane ch) = leaf_lanes (Generic_node (Some c) lane ch)"
  by (simp add: leaf_lanes_def)

lemma leaf_frozen_upd:
  "leaf_frozen (Generic_node (Some (c\<lparr> l := ll \<rparr>)) lane ch) =
   leaf_frozen (Generic_node (Some c) lane ch)"
  by (simp add: leaf_frozen_def)

lemma wf_node_lengths:
  "wf_node b m node \<Longrightarrow> length (node_s node) = b ^ m \<and> length (node_l node) = b ^ m"
  by (cases m) (auto simp: node_s_def node_l_def split: option.splits)

lemma wf_node_contents:
  "wf_node b m node \<Longrightarrow> \<exists>c. get_contents node = Some c \<and> length (l c) = b ^ m \<and> length (s c) = b ^ m"
  by (cases m) (auto split: option.splits)

lemma wf_node_upd:
  "wf_node b m (Generic_node (Some c) lane ch) \<Longrightarrow> length ll = length (l c) \<Longrightarrow>
   wf_node b m (Generic_node (Some (c\<lparr> l := ll \<rparr>)) lane ch)"
  by (cases m) simp_all

lemma sum_list_const: "(\<And>x. x \<in> set xs \<Longrightarrow> f x = c) \<Longrightarrow> sum_list (map f xs) = length xs * c"
  by (induction xs) simp_all

lemma length_leaves_wf: "0 < b \<Longrightarrow> wf_node b m node \<Longrightarrow> length (leaves node) = b ^ m"
proof (induction m arbitrary: node)
  case 0
  then show ?case by (cases node) simp
next
  case (Suc m)
  obtain co lane ch where node: "node = Generic_node co lane ch" by (cases node)
  from Suc.prems have ch: "length ch = b" "list_all (wf_node b m) ch" by (simp_all add: node)
  then have ne: "ch \<noteq> []" using Suc.prems(1) by auto
  have "sum_list (map (\<lambda>x. length (leaves x)) ch) = length ch * b ^ m"
    by (rule sum_list_const) (use ch Suc in \<open>simp add: list_all_iff\<close>)
  then show ?case using ne ch by (simp add: node length_concat comp_def)
qed

lemma map_nth_fun: "map (\<lambda>j. f (xs ! j)) [0..<length xs] = map f xs"
  by (rule nth_equalityI) simp_all

lemma bits01_kernel_transform:
  assumes "length xs = length G" "list_all (\<lambda>x. length x = n \<and> bits01 x) xs"
  shows "bits01 (kernel_transform G xs)"
proof -
  have "xor_bits (map (\<lambda>j. if G ! j ! i then xs ! j ! k else 0) [0..<length G]) \<in> {0, 1}"
    if "k < length (xs ! 0)" for i k
  proof -
    have "xs ! j ! k = 0 \<or> xs ! j ! k = 1" if j: "j < length G" for j
    proof -
      have "0 < length G" using j by linarith
      then have "length (xs ! j) = n" "bits01 (xs ! j)" "length (xs ! 0) = n"
        using assms j by (simp_all add: list_all_length)
      then show ?thesis
        using \<open>k < length (xs ! 0)\<close> by (simp add: bits01_def list_all_length)
    qed
    then have "\<forall>j<length G. xs ! j ! k = 0 \<or> xs ! j ! k = 1" by blast
    then have "bits01 (map (\<lambda>j. if G ! j ! i then xs ! j ! k else 0) [0..<length G])"
      unfolding bits01_def list_all_length by simp
    from xor_bits_bit[OF this] show ?thesis by simp
  qed
  then show ?thesis
    unfolding kernel_transform_def bits01_def by (auto simp: list_all_iff)
qed

text \<open>\<^verbatim>\<open>recursive_decode\<close> returns on every well-formed subtree, by induction on the number of stages with the loop over the children inside.\<close>

lemma decode_children_total:
  fixes d :: "'w::len word Decoder_polar_MK_SC_naive"
  assumes IH: "\<And>node. wf_node (length G) m node \<Longrightarrow>
      \<exists>node'. recursive_decode d node = Some node' \<and> decoded_node G m node node'"
    and lam: "length G \<le> length (lambdas d)"
  shows "list_all (wf_node (length G) m) todo \<Longrightarrow>
     list_all (\<lambda>x. length G ^ m \<le> length (node_s x)) decoded \<Longrightarrow>
     \<exists>todo'. decode_children d pl (length G) (length G ^ m) decoded todo = Some (decoded @ todo') \<and>
        list_all2 (decoded_node G m) todo todo'"
proof (induction todo arbitrary: decoded)
  case Nil
  then show ?case by simp
next
  case (Cons x rest)
  let ?b = "length G"
  obtain co lane ch where x: "x = Generic_node co lane ch" by (cases x)
  from Cons.prems(1) have wfx: "wf_node ?b m x" and wfr: "list_all (wf_node ?b m) rest"
    by simp_all
  from wf_node_contents[OF wfx] obtain c where co: "co = Some c" and lc: "length (l c) = ?b ^ m"
    by (auto simp: x)
  define ll where "ll = map (child_llr (lambdas d ! length decoded) pl ?b (?b ^ m)
                               (map node_s decoded)) [0..<?b ^ m] @ drop (?b ^ m) (l c)"
  have lll: "length ll = length (l c)" by (simp add: ll_def lc)
  have wf1: "wf_node ?b m (Generic_node (Some (c\<lparr> l := ll \<rparr>)) lane ch)"
    using wfx lll unfolding x co by (rule wf_node_upd)
  from IH[OF wf1] obtain node1 where
    r: "recursive_decode d (Generic_node (Some (c\<lparr> l := ll \<rparr>)) lane ch) = Some node1" and
    dn: "decoded_node G m (Generic_node (Some (c\<lparr> l := ll \<rparr>)) lane ch) node1" by blast
  have dn': "decoded_node G m x node1"
    using dn unfolding decoded_node_def x co leaf_lanes_upd leaf_frozen_upd .
  have "wf_node ?b m node1" using dn by (simp add: decoded_node_def)
  from wf_node_lengths[OF this] have len1: "?b ^ m \<le> length (node_s node1)" by simp
  have "list_all (\<lambda>x. ?b ^ m \<le> length (node_s x)) (decoded @ [node1])"
    using Cons.prems(2) len1 by simp
  from Cons.IH[OF wfr this] obtain rest' where
    rr: "decode_children d pl ?b (?b ^ m) (decoded @ [node1]) rest = Some ((decoded @ [node1]) @ rest')"
    and dr: "list_all2 (decoded_node G m) rest rest'" by blast
  have "decode_children d pl ?b (?b ^ m) decoded (x # rest) = Some (decoded @ node1 # rest')"
    unfolding x co using lam lc Cons.prems(2) r rr by (simp add: ll_def)
  with dn' dr show ?case by auto
qed

lemma recursive_decode_total:
  fixes d :: "'w::len word Decoder_polar_MK_SC_naive"
  assumes md: "mono_decoder G d"
  shows "m \<le> length (stages (code d)) \<Longrightarrow> wf_node (length G) m node \<Longrightarrow>
     \<exists>node'. recursive_decode d node = Some node' \<and> decoded_node G m node node'"
proof (induction m arbitrary: node)
  case 0
  obtain co lane ch where node: "node = Generic_node co lane ch" by (cases node)
  from 0 obtain c where c: "co = Some c" "ch = []" "length (l c) = 1" "length (s c) = 1"
    by (auto simp: node split: option.splits)
  then obtain s0 where s0: "s c = [s0]" by (cases "s c") simp_all
  from c obtain l0 where l0: "l c = [l0]" by (cases "l c") simp_all
  show ?case
    unfolding node using c
    by (auto simp: decoded_node_def s0 l0 leaf_lanes_def leaf_frozen_def leaf_bits_def node_s_def
        bits01_def)
next
  case (Suc m)
  let ?b = "length G"
  from md have b0: "0 < ?b" and lam: "?b \<le> length (lambdas d)"
    unfolding mono_decoder_def by auto
  obtain co lane ch where node: "node = Generic_node co lane ch" by (cases node)
  from Suc.prems(2) obtain c where co: "co = Some c" and ch: "length ch = ?b"
    "list_all (wf_node ?b m) ch" and c: "length (l c) = ?b * ?b ^ m" "length (s c) = ?b * ?b ^ m"
    "stage c = int m"
    by (auto simp: node split: option.splits)
  have ne: "ch \<noteq> []" using ch(1) b0 by auto
  have m: "m < length (stages (code d))" "m \<le> length (stages (code d))" using Suc.prems(1) by simp_all
  have sp: "length (l c) div ?b = ?b ^ m" using c b0 by simp
  from decode_children_total[OF Suc.IH[OF m(2)] lam ch(2), of "[]" "l c"]
  obtain ch' where dc: "decode_children d (l c) ?b (?b ^ m) [] ch = Some ch'"
    and rel: "list_all2 (decoded_node G m) ch ch'" by auto
  have lch': "length ch' = ?b" using rel ch(1) by (simp add: list_all2_lengthD)
  have ne': "ch' \<noteq> []" using lch' b0 by auto
  have each: "decoded_node G m (ch ! j) (ch' ! j)" if "j < ?b" for j
    using rel that ch(1) by (simp add: list_all2_conv_all_nth)
  have wfc: "list_all (wf_node ?b m) ch'"
    using each lch' by (simp add: list_all_length decoded_node_def)
  have lb: "list_all (\<lambda>x. length (node_s x) = ?b ^ m \<and> bits01 (node_s x)) ch'"
    unfolding list_all_length
  proof (intro allI impI)
    fix j assume "j < length ch'"
    then have j: "j < ?b" using lch' by simp
    from each[OF j] have w: "wf_node ?b m (ch' ! j)" and b: "bits01 (node_s (ch' ! j))"
      unfolding decoded_node_def by blast+
    from wf_node_lengths[OF w] b
    show "length (node_s (ch' ! j)) = ?b ^ m \<and> bits01 (node_s (ch' ! j))" by blast
  qed
  have re: "reencode d c ch' = Some (kernel_transform G (map node_s ch'))"
    using md lch' lb _ c m(1) by (rule reencode_kernel_transform) (use b0 in simp)
  let ?x = "kernel_transform G (map node_s ch')"
  let ?node' = "Generic_node (Some (c\<lparr> s := ?x \<rparr>)) lane ch'"
  have res: "recursive_decode d node = Some ?node'"
    unfolding node co using ne ch(1) dc re by (simp add: sp Let_def)
  have z: "map node_s ch' ! 0 = node_s (ch' ! 0)" using lch' b0 by simp
  have lx: "length ?x = ?b * ?b ^ m"
    using lb lch' b0 by (simp add: length_kernel_transform z list_all_length)
  have wf': "wf_node ?b (Suc m) ?node'" using lch' wfc c lx by simp
  have lanes: "leaf_lanes ?node' = leaf_lanes node"
  proof -
    have "map leaf_lanes ch' = map leaf_lanes ch"
      by (rule nth_equalityI) (use each lch' ch(1) in \<open>simp_all add: decoded_node_def\<close>)
    then show ?thesis by (simp add: node leaf_lanes_node ne ne')
  qed
  have frozen: "leaf_frozen ?node' = leaf_frozen node"
  proof -
    have "map leaf_frozen ch' = map leaf_frozen ch"
      by (rule nth_equalityI) (use each lch' ch(1) in \<open>simp_all add: decoded_node_def\<close>)
    then show ?thesis by (simp add: node leaf_frozen_node ne ne')
  qed
  have bits: "bits01 (node_s ?node')"
    using bits01_kernel_transform[of "map node_s ch'" G "?b ^ m"] lb lch'
    by (simp add: node_s_def list_all_iff)
  have reenc: "reencoded G ?node'"
    using each lch' by (simp add: node_s_def list_all_length decoded_node_def)
  have enc: "node_s ?node' = polar_encode G (Suc m) (leaf_bits ?node')"
  proof -
    have lbits: "length (leaf_bits (ch' ! j)) = ?b ^ m" if "j < ?b" for j
      using length_leaves_wf[OF b0, of m "ch' ! j"] wfc lch' that
      by (simp add: leaf_bits_def list_all_length)
    have lf: "leaf_bits ?node' = concat (map (\<lambda>j. leaf_bits (ch' ! j)) [0..<?b])"
      using map_nth_fun[of leaf_bits ch'] by (simp add: leaf_bits_node ne' lch')
    have "map (\<lambda>j. polar_encode G m (frame (?b ^ m) j (leaf_bits ?node'))) [0..<?b] =
          map (\<lambda>j. node_s (ch' ! j)) [0..<?b]"
    proof (rule map_cong[OF refl])
      fix j assume "j \<in> set [0..<?b]"
      then have j: "j < ?b" by simp
      have "frame (?b ^ m) j (leaf_bits ?node') = leaf_bits (ch' ! j)"
        unfolding lf by (rule frame_concat_blocks) (simp_all add: lbits j)
      then show "polar_encode G m (frame (?b ^ m) j (leaf_bits ?node')) = node_s (ch' ! j)"
        using each[OF j] by (simp add: decoded_node_def)
    qed
    also have "\<dots> = map node_s ch'" using map_nth_fun[of node_s ch'] by (simp add: lch')
    finally show ?thesis by (simp add: node_s_def)
  qed
  from res wf' lanes frozen bits reenc enc show ?case
    unfolding decoded_node_def by blast
qed

text \<open>What the decoding functions read of a decoder the constructor has built.\<close>

lemma length_recognised_lambdas:
  "G \<in> {arikan_kernel, kernel_111_101_011, kernel_100_110_101} \<Longrightarrow>
   length (recognised_lambdas G :: ('w::len word list \<Rightarrow> int list \<Rightarrow> 'w word) list) = length G"
  by (auto simp: recognised_lambdas_def lambdas_arikan_def lambdas_111_101_011_def
      lambdas_100_110_101_def arikan_kernel_def kernel_111_101_011_def kernel_100_110_101_def)

lemma ctor_decoder:
  fixes d :: "'w::len word Decoder_polar_MK_SC_naive"
  assumes c: "Decoder_polar_MK_SC_naive_ctor k n cd fb nf = Inr d" and inv: "Polar_code_inv cd"
  shows "d = \<lparr> n_frames = nf, K = k, N = n, simd_inter_frame_level = 1,
           code = cd, frozen_bits = fb,
           polar_tree = built_tree (length (kernel_matrices cd ! 0)) (length (stages cd)) 0 fb,
           Ke = [concat (map (\<lambda>i. map (\<lambda>j. of_bool (kernel_matrices cd ! 0 ! j ! i))
                                     [0..<length (kernel_matrices cd ! 0)])
                             [0..<length (kernel_matrices cd ! 0)])],
           lambdas = recognised_lambdas (kernel_matrices cd ! 0) \<rparr>"
  using ctor_success[OF inv ctor_Inr(4)[OF c] ctor_Inr(5)[OF c] ctor_Inr(6)[OF c] ctor_Inr(7)[OF c]
      ctor_Inr(9)[OF c] ctor_Inr(1)[OF c] ctor_Inr(2)[OF c] ctor_Inr(8)[OF c], of nf, where ?'w = 'w] c
  by simp

lemma ctor_mono_decoder:
  fixes d :: "'w::len word Decoder_polar_MK_SC_naive"
  assumes c: "Decoder_polar_MK_SC_naive_ctor k n cd fb nf = Inr d" and inv: "Polar_code_inv cd"
  shows "mono_decoder (kernel_matrices cd ! 0) d"
proof -
  let ?G = "kernel_matrices cd ! 0"
  note mc = mono_codeword_size[OF inv ctor_Inr(4)[OF c]]
  have b2: "2 \<le> length ?G" by (rule ctor_Inr(5)[OF c])
  have ne: "?G \<noteq> []"
  proof
    assume "?G = []"
    then have "length ?G = 0" by simp
    with b2 show False by linarith
  qed
  have "list_all (\<lambda>M. list_all (\<lambda>row. length row = length M) M) (kernel_matrices cd)"
    using inv unfolding Polar_code_inv_def by blast
  then have "list_all (\<lambda>M. list_all (\<lambda>row. length row = length M) M) [?G]"
    using mc(3) by simp
  then have sq: "list_all (\<lambda>row. length row = length ?G) ?G" by simp
  have ll: "length (lambdas d) = length ?G"
    unfolding ctor_Inr(12)[OF c] by (rule length_recognised_lambdas) (rule ctor_Inr(9)[OF c])
  have cdd: "code d = cd" by (rule ctor_Inr(13)[OF c])
  have ke: "Ke d \<noteq> []" "Ke_init ?G = Some (Ke d ! 0)"
    by (subst ctor_decoder[OF c inv], simp add: Ke_init_square[OF sq])+
  show ?thesis
    unfolding mono_decoder_def cdd using ne sq ll mc(2) mc(4) ke by simp
qed

lemma mono_decoder_Ke_nth:
  assumes md: "mono_decoder G d" and ij: "i < length G" "j < length G"
  shows "Ke d ! 0 ! (i * length G + j) = of_bool (G ! j ! i)"
proof -
  from md have sq: "list_all (\<lambda>row. length row = length G) G"
    and ke: "Ke_init G = Some (Ke d ! 0)"
    unfolding mono_decoder_def by auto
  have kev: "Ke d ! 0 = concat (map (\<lambda>i. map (\<lambda>j. of_bool (G ! j ! i)) [0..<length G]) [0..<length G])"
    using ke Ke_init_square[OF sq] by simp
  have "Ke d ! 0 ! (i * length G + j) = map (\<lambda>j. of_bool (G ! j ! i)) [0..<length G] ! j"
    unfolding kev by (rule nth_concat_blocks) (simp_all add: ij)
  then show ?thesis using ij by simp
qed

text \<open>
  Claim C4. In a decoder the constructor has built, \<^verbatim>\<open>recursive_decode\<close> on a well-formed
  subtree below an internal node returns, and afterwards every internal node of the subtree
  holds the generator transform of the partial sums of its children. At the node itself,
  with \<open>b\<close> children of \<open>b ^ m\<close> partial sums each: for each row \<open>i\<close> of \<open>Ke\<close> (lines 79-86: row
  \<open>i\<close> of \<open>Ke\<close> is column \<open>i\<close> of the kernel matrix) and each of the \<open>b ^ m\<close> repetitions \<open>p\<close> of
  the kernel, the partial sum at position \<open>b ^ m * i + p\<close> is the exclusive or of the partial
  sums at \<open>p\<close> of the children that the row selects.
\<close>
theorem reencode_generator_transform:
  fixes d :: "'w::len word Decoder_polar_MK_SC_naive"
  assumes c: "Decoder_polar_MK_SC_naive_ctor k n cd fb nf = Inr d" and inv: "Polar_code_inv cd"
    and m: "m < length (stages cd)"
    and wf: "wf_node (length (kernel_matrices cd ! 0)) (Suc m) node"
  shows "\<exists>node'. recursive_decode d node = Some node' \<and>
     reencoded (kernel_matrices cd ! 0) node' \<and>
     node_s node' = kernel_transform (kernel_matrices cd ! 0) (map node_s (get_children node')) \<and>
     (\<forall>i<length (kernel_matrices cd ! 0). \<forall>p<length (kernel_matrices cd ! 0) ^ m.
        node_s node' ! (length (kernel_matrices cd ! 0) ^ m * i + p) =
          xor_bits (map (\<lambda>j. if Ke d ! 0 ! (i * length (kernel_matrices cd ! 0) + j) = 1
                              then node_s (get_children node' ! j) ! p else 0)
                      [0..<length (kernel_matrices cd ! 0)]))"
proof -
  let ?G = "kernel_matrices cd ! 0"
  let ?b = "length ?G"
  note md = ctor_mono_decoder[OF c inv]
  have cdd: "code d = cd" by (rule ctor_Inr(13)[OF c])
  from md have b0: "0 < ?b" unfolding mono_decoder_def by auto
  have "Suc m \<le> length (stages (code d))" using m cdd by simp
  from recursive_decode_total[OF md this wf] obtain node' where
    r: "recursive_decode d node = Some node'" and dn: "decoded_node ?G (Suc m) node node'"
    by blast
  obtain co lane ch where node': "node' = Generic_node co lane ch" by (cases node')
  from dn have wf': "wf_node ?b (Suc m) node'" and re: "reencoded ?G node'"
    unfolding decoded_node_def by blast+
  from wf' have ch: "length ch = ?b" "list_all (wf_node ?b m) ch" by (simp_all add: node')
  then have ne: "ch \<noteq> []" using b0 by auto
  from re ne have kt: "node_s node' = kernel_transform ?G (map node_s ch)"
    by (simp add: node')
  have lc: "length (node_s (ch ! j)) = ?b ^ m" if "j < ?b" for j
    using wf_node_lengths[of ?b m "ch ! j"] ch that by (simp add: list_all_length)
  have z: "map node_s ch ! 0 = node_s (ch ! 0)" using ch(1) b0 by simp
  have gc: "get_children node' = ch" by (simp add: node')
  have pos: "node_s node' ! (?b ^ m * i + p) =
      xor_bits (map (\<lambda>j. if Ke d ! 0 ! (i * ?b + j) = 1 then node_s (get_children node' ! j) ! p
                          else 0) [0..<?b])"
    if i: "i < ?b" and p: "p < ?b ^ m" for i p
    unfolding gc
  proof -
    have l0: "length (map node_s ch ! 0) = ?b ^ m" by (simp add: z lc[OF b0])
    have p': "p < length (map node_s ch ! 0)" unfolding l0 by (rule p)
    have a: "kernel_transform ?G (map node_s ch) ! (?b ^ m * i + p) =
        xor_bits (map (\<lambda>j. if ?G ! j ! i then map node_s ch ! j ! p else 0) [0..<?b])"
      using kernel_transform_nth[OF i p'] unfolding l0 .
    have e: "map (\<lambda>j. if ?G ! j ! i then map node_s ch ! j ! p else 0) [0..<?b] =
        map (\<lambda>j. if Ke d ! 0 ! (i * ?b + j) = 1 then node_s (ch ! j) ! p else 0) [0..<?b]"
      by (rule map_cong) (simp_all add: ch(1) mono_decoder_Ke_nth[OF md i])
    show "node_s node' ! (?b ^ m * i + p) =
      xor_bits (map (\<lambda>j. if Ke d ! 0 ! (i * ?b + j) = 1 then node_s (ch ! j) ! p else 0) [0..<?b])"
      unfolding kt a e ..
  qed
  have kt': "node_s node' = kernel_transform ?G (map node_s (get_children node'))"
    unfolding gc by (rule kt)
  from r re kt' pos show ?thesis by blast
qed

lemma mono_code_arikan1_inv: "Polar_code_inv (mono_code arikan_kernel 1)"
  by (rule mono_code_inv) (simp_all add: arikan_kernel_def)

theorem reencode_generator_transform_witness:
  "\<exists>(d :: 8 word Decoder_polar_MK_SC_naive) node'.
     Decoder_polar_MK_SC_naive_ctor 1 2 (mono_code arikan_kernel 1) [True, False] 1 = Inr d \<and>
     Polar_code_inv (mono_code arikan_kernel 1) \<and>
     0 < length (stages (mono_code arikan_kernel 1)) \<and>
     wf_node (length (kernel_matrices (mono_code arikan_kernel 1) ! 0)) (Suc 0)
       (Generic_node (Some \<lparr> l = [3, - 5], s = [0, 0], stage = 0, is_frozen_bit = True \<rparr>) 0
          [Generic_node (Some \<lparr> l = [0], s = [0], stage = - 1, is_frozen_bit = True \<rparr>) 0 [],
           Generic_node (Some \<lparr> l = [0], s = [0], stage = - 1, is_frozen_bit = False \<rparr>) 1 []]
        :: 8 word Generic_node) \<and>
     recursive_decode d
       (Generic_node (Some \<lparr> l = [3, - 5], s = [0, 0], stage = 0, is_frozen_bit = True \<rparr>) 0
          [Generic_node (Some \<lparr> l = [0], s = [0], stage = - 1, is_frozen_bit = True \<rparr>) 0 [],
           Generic_node (Some \<lparr> l = [0], s = [0], stage = - 1, is_frozen_bit = False \<rparr>) 1 []])
       = Some node' \<and>
     reencoded arikan_kernel node' \<and>
     node_s node' = kernel_transform arikan_kernel (map node_s (get_children node')) \<and>
     node_s node' = [1, 1] \<and> map node_s (get_children node') = [[0], [1]]"
proof -
  let ?cd = "mono_code arikan_kernel 1"
  let ?node = "Generic_node (Some \<lparr> l = [3, - 5], s = [0, 0], stage = 0, is_frozen_bit = True \<rparr>) 0
          [Generic_node (Some \<lparr> l = [0], s = [0], stage = - 1, is_frozen_bit = True \<rparr>) 0 [],
           Generic_node (Some \<lparr> l = [0], s = [0], stage = - 1, is_frozen_bit = False \<rparr>) 1 []]
          :: 8 word Generic_node"
  obtain d :: "8 word Decoder_polar_MK_SC_naive" where
    d: "Decoder_polar_MK_SC_naive_ctor 1 2 ?cd [True, False] 1 = Inr d"
    using ctor_arikan2 by blast
  have dv: "lambdas d = lambdas_arikan" "Ke d = [[1, 1, 0, 1]]" "code d = ?cd"
    using d unfolding ctor_arikan2 by auto
  have g: "kernel_matrices ?cd ! 0 = arikan_kernel" by (simp add: mono_code_def)
  have m: "0 < length (stages ?cd)" by (simp add: mono_code_def)
  have wf: "wf_node (length (kernel_matrices ?cd ! 0)) (Suc 0) ?node"
    unfolding g by (simp add: arikan_kernel_def)
  from reencode_generator_transform [OF d mono_code_arikan1_inv m wf] obtain node' where
    r: "recursive_decode d ?node = Some node'" and re: "reencoded arikan_kernel node'" and
    kt: "node_s node' = kernel_transform arikan_kernel (map node_s (get_children node'))"
    unfolding g by blast
  have "recursive_decode d ?node =
    Some (Generic_node (Some \<lparr> l = [3, - 5], s = [1, 1], stage = 0, is_frozen_bit = True \<rparr>) 0
          [Generic_node (Some \<lparr> l = [- 3], s = [0], stage = - 1, is_frozen_bit = True \<rparr>) 0 [],
           Generic_node (Some \<lparr> l = [- 2], s = [1], stage = - 1, is_frozen_bit = False \<rparr>) 1 []])"
    by (simp add: dv lambdas_arikan_def child_llr_def signbit_def h_LLR_def node_s_def reencode_def
        encode_polar_kernel_def mono_code_def arikan_kernel_def Let_def upt_conv_Cons numeral_2_eq_2)
  with r have ns: "node_s node' = [1, 1]" and cs: "map node_s (get_children node') = [[0], [1]]"
    by (auto simp: node_s_def)
  show ?thesis
    by (rule exI[of _ d], rule exI[of _ node'])
      (intro conjI d mono_code_arikan1_inv m wf r re kt ns cs)
qed

subsection \<open>The multi-kernel SC decoder: decoding without noise\<close>
































end
